theory Spec2Isabelle
  imports Complex_Main
begin

section \<open>Text\<close>

text \<open>
  A Python \<open>str\<close> is a sequence of Unicode code points; a code point is a natural number.
  Literals of the source are written as Isabelle strings and read through \<open>ustr\<close>.
\<close>

type_synonym ustr = "nat list"

definition ustr :: "string \<Rightarrow> ustr" where
  "ustr s = map of_char s"

text \<open>
  \<open>str.strip()\<close> without argument removes leading and trailing white space, that is the
  code points for which \<open>str.isspace\<close> holds.
\<close>

definition py_isspace :: "nat \<Rightarrow> bool" where
  "py_isspace c \<longleftrightarrow>
     (9 \<le> c \<and> c \<le> 13) \<or> (28 \<le> c \<and> c \<le> 32) \<or> c = 133 \<or> c = 160 \<or> c = 5760 \<or>
     (8192 \<le> c \<and> c \<le> 8202) \<or> c = 8232 \<or> c = 8233 \<or> c = 8239 \<or> c = 8287 \<or> c = 12288"

definition strip_where :: "(nat \<Rightarrow> bool) \<Rightarrow> ustr \<Rightarrow> ustr" where
  "strip_where P s = rev (dropWhile P (rev (dropWhile P s)))"

definition py_strip :: "ustr \<Rightarrow> ustr" where
  "py_strip s = strip_where py_isspace s"

text \<open>\<open>s.replace(a, b)\<close> for one-character \<open>a\<close> and \<open>b\<close>.\<close>

definition replace_char :: "nat \<Rightarrow> nat \<Rightarrow> ustr \<Rightarrow> ustr" where
  "replace_char a b s = map (\<lambda>c. if c = a then b else c) s"

text \<open>
  \<open>re.sub(r'[X]+', '-', s)\<close> for a character class \<open>X\<close>: every maximal run of code points
  of the class is replaced by one hyphen (code point 45).
\<close>

fun sub_runs :: "(nat \<Rightarrow> bool) \<Rightarrow> bool \<Rightarrow> ustr \<Rightarrow> ustr" where
  "sub_runs P in_run [] = []"
| "sub_runs P in_run (c # cs) =
     (if P c then (if in_run then sub_runs P True cs else 45 # sub_runs P True cs)
      else c # sub_runs P False cs)"

definition re_sub_runs :: "(nat \<Rightarrow> bool) \<Rightarrow> ustr \<Rightarrow> ustr" where
  "re_sub_runs P s = sub_runs P False s"

section \<open>The Python runtime\<close>

text \<open>
  A Python \<open>float\<close> is an IEEE binary64 value. \<open>Fin q\<close> is the finite value \<open>q\<close> (the two
  zeros, which compare equal, are both \<open>Fin 0\<close>); \<open>NaN\<close> compares false with everything.
  The type does not say which rationals are binary64 values: what holds for every \<open>q\<close>
  holds for those that are.
\<close>

datatype pyfloat = Fin rat | PInf | NInf | NaN

fun flt :: "pyfloat \<Rightarrow> pyfloat \<Rightarrow> bool" where
  "flt NaN y = False"
| "flt x NaN = False"
| "flt (Fin a) (Fin b) = (a < b)"
| "flt (Fin a) PInf = True"
| "flt (Fin a) NInf = False"
| "flt PInf y = False"
| "flt NInf (Fin b) = True"
| "flt NInf PInf = True"
| "flt NInf NInf = False"

definition fgt :: "pyfloat \<Rightarrow> pyfloat \<Rightarrow> bool" where
  "fgt x y = flt y x"

definition fle :: "pyfloat \<Rightarrow> pyfloat \<Rightarrow> bool" where
  "fle x y \<longleftrightarrow> x \<noteq> NaN \<and> y \<noteq> NaN \<and> \<not> flt y x"

text \<open>The values \<open>json.loads\<close> returns; a \<open>dict\<close> is listed in insertion order.\<close>

datatype json =
    JNull
  | JBool bool
  | JInt int
  | JFloat pyfloat
  | JStr ustr
  | JList "json list"
  | JDict "(ustr \<times> json) list"

text \<open>
  The parts of the Python runtime the program calls and that are not code of the
  repository are parameters of the model:
  \<^item> \<open>unicode_lower s i\<close>: what \<open>str.lower\<close> puts for the code point at position \<open>i\<close> of
    \<open>s\<close> when that code point is 256 or above (the Unicode case table; the position is
    given because the table has one context-dependent entry);
  \<^item> \<open>float_of_str s\<close>: \<open>float(s)\<close>, with \<open>None\<close> when it raises;
  \<^item> \<open>float_round q\<close>: the binary64 value nearest to \<open>q\<close>, used by float addition;
  \<^item> \<open>json_loads s\<close>: \<open>json.loads(s)\<close>, with \<open>None\<close> when it raises.
\<close>

record runtime =
  unicode_lower :: "ustr \<Rightarrow> nat \<Rightarrow> nat list"
  float_of_str :: "ustr \<Rightarrow> pyfloat option"
  float_round :: "rat \<Rightarrow> pyfloat"
  json_loads :: "ustr \<Rightarrow> json option"

text \<open>\<open>x + y\<close> on floats.\<close>

fun fadd :: "runtime \<Rightarrow> pyfloat \<Rightarrow> pyfloat \<Rightarrow> pyfloat" where
  "fadd rt NaN y = NaN"
| "fadd rt x NaN = NaN"
| "fadd rt (Fin a) (Fin b) = float_round rt (a + b)"
| "fadd rt (Fin a) y = y"
| "fadd rt PInf NInf = NaN"
| "fadd rt NInf PInf = NaN"
| "fadd rt x y = x"

text \<open>
  \<open>str.lower()\<close>: ASCII and Latin-1 capitals move to their small letters, every other
  code point below 256 stays, and the rest follows the Unicode table.
\<close>

definition lower_at :: "runtime \<Rightarrow> ustr \<Rightarrow> nat \<Rightarrow> nat list" where
  "lower_at rt s i =
     (let c = s ! i in
      if 65 \<le> c \<and> c \<le> 90 then [c + 32]
      else if c < 192 then [c]
      else if c \<le> 222 \<and> c \<noteq> 215 then [c + 32]
      else if c < 256 then [c]
      else unicode_lower rt s i)"

definition py_lower :: "runtime \<Rightarrow> ustr \<Rightarrow> ustr" where
  "py_lower rt s = concat (map (lower_at rt s) [0..<length s])"

section \<open>Value normalisation\<close>

text \<open>\<open>to_float\<close> (build.py, lines 29-33): any failure of \<open>float\<close> gives \<open>0.0\<close>.\<close>

definition to_float :: "runtime \<Rightarrow> ustr \<Rightarrow> pyfloat" where
  "to_float rt x =
     (case float_of_str rt (py_strip (replace_char 44 46 x)) of
        Some v \<Rightarrow> v
      | None \<Rightarrow> Fin 0)"

text \<open>\<open>slugify\<close> (build.py, lines 35-39).\<close>

definition slug_char :: "nat \<Rightarrow> bool" where
  "slug_char c \<longleftrightarrow> (97 \<le> c \<and> c \<le> 122) \<or> (48 \<le> c \<and> c \<le> 57) \<or> c = 45"

definition slugify :: "runtime \<Rightarrow> ustr \<Rightarrow> ustr" where
  "slugify rt text =
     (let t1 = py_lower rt text;
          t2 = re_sub_runs (\<lambda>c. \<not> slug_char c) (replace_char 32 45 t1);
          t3 = strip_where (\<lambda>c. c = 45) (re_sub_runs (\<lambda>c. c = 45) t2)
      in if t3 = [] then ustr ''product'' else t3)"

section \<open>Rows\<close>

text \<open>
  A raw row maps field names to text, and a field may be absent (section 3 of the
  specification). A row with a value that is not text, such as the \<open>None\<close> that
  \<open>csv.DictReader\<close> puts for the fields a short line lacks, is not a row of this type.
  \<open>row_get r k d\<close> is \<open>r.get(k, d)\<close>.
\<close>

type_synonym rawrow = "string \<rightharpoonup> ustr"

definition row_get :: "rawrow \<Rightarrow> string \<Rightarrow> ustr \<Rightarrow> ustr" where
  "row_get r k d = (case r k of Some v \<Rightarrow> v | None \<Rightarrow> d)"

text \<open>The dictionary \<open>item\<close> that \<open>normalize_rows\<close> builds for a row (lines 44-60).\<close>

record item =
  category :: ustr
  product_slug :: ustr
  product_name :: ustr
  brand :: ustr
  model :: ustr
  gtin :: ustr
  mpn :: ustr
  specs_json :: ustr
  merchant :: ustr
  price :: pyfloat
  currency :: ustr
  shipping :: pyfloat
  url :: ustr
  availability :: ustr
  updated_at :: ustr

text \<open>\<open>a or b\<close> on text: \<open>a\<close> unless it is empty.\<close>

definition or_else :: "ustr \<Rightarrow> ustr \<Rightarrow> ustr" where
  "or_else a b = (if a \<noteq> [] then a else b)"

text \<open>
  \<open>now\<close> is the text \<open>datetime.utcnow().isoformat()\<close> gives while the row is processed.
\<close>

definition item_of_row :: "runtime \<Rightarrow> ustr \<Rightarrow> rawrow \<Rightarrow> item" where
  "item_of_row rt now r =
     \<lparr> category = or_else (py_strip (row_get r ''category'' [])) [],
       product_slug =
         or_else (py_strip (row_get r ''product_slug'' []))
           (slugify rt
              (or_else (py_strip (row_get r ''brand'' [] @ ustr '' '' @ row_get r ''model'' []))
                 (row_get r ''product_name'' []))),
       product_name =
         or_else (py_strip (row_get r ''product_name'' []))
           (py_strip (row_get r ''brand'' [] @ ustr '' '' @ row_get r ''model'' [])),
       brand = py_strip (row_get r ''brand'' []),
       model = py_strip (row_get r ''model'' []),
       gtin = py_strip (row_get r ''gtin'' []),
       mpn = py_strip (row_get r ''mpn'' []),
       specs_json = py_strip (row_get r ''specs_json'' []),
       merchant = py_strip (row_get r ''merchant'' []),
       price = to_float rt (row_get r ''price'' (ustr ''0'')),
       currency = py_strip (or_else (row_get r ''currency'' []) (ustr ''RUB'')),
       shipping = to_float rt (row_get r ''shipping'' (ustr ''0'')),
       url = py_strip (row_get r ''url'' []),
       availability = py_strip (row_get r ''availability'' []),
       updated_at = or_else (py_strip (row_get r ''updated_at'' [])) (now @ ustr ''Z'') \<rparr>"

text \<open>The test of line 61.\<close>

definition accepted :: "item \<Rightarrow> bool" where
  "accepted it \<longleftrightarrow>
     product_slug it \<noteq> [] \<and> merchant it \<noteq> [] \<and> fgt (price it) (Fin 0) \<and> url it \<noteq> []"

text \<open>One pass of the loop body of \<open>normalize_rows\<close>: the item appended, if any.\<close>

definition normalize_row :: "runtime \<Rightarrow> ustr \<Rightarrow> rawrow \<Rightarrow> item option" where
  "normalize_row rt now r =
     (let it = item_of_row rt now r in if accepted it then Some it else None)"

text \<open>
  \<open>normalize_rows\<close> (lines 41-63). \<open>clock i\<close> is the clock reading while row number \<open>i\<close>
  is processed; \<open>acc\<close> is the list \<open>norm\<close> built so far.
\<close>

fun normalize_loop :: "runtime \<Rightarrow> (nat \<Rightarrow> ustr) \<Rightarrow> nat \<Rightarrow> rawrow list \<Rightarrow> item list \<Rightarrow> item list" where
  "normalize_loop rt clock i [] acc = acc"
| "normalize_loop rt clock i (r # rows) acc =
     normalize_loop rt clock (Suc i) rows
       (case normalize_row rt (clock i) r of
          Some it \<Rightarrow> acc @ [it]
        | None \<Rightarrow> acc)"

definition normalize_rows :: "runtime \<Rightarrow> (nat \<Rightarrow> ustr) \<Rightarrow> rawrow list \<Rightarrow> item list" where
  "normalize_rows rt clock rows = normalize_loop rt clock 0 rows []"

section \<open>Grouping by product\<close>

record product =
  p_slug :: ustr
  p_category :: ustr
  p_name :: ustr
  p_brand :: ustr
  p_model :: ustr
  p_gtin :: ustr
  p_mpn :: ustr
  p_specs :: json

record offer =
  o_merchant :: ustr
  o_availability :: ustr
  o_price :: pyfloat
  o_shipping :: pyfloat
  o_currency :: ustr
  o_url :: ustr
  o_total :: pyfloat
  o_updated_at :: ustr

text \<open>The two dictionaries \<open>group_by_product\<close> returns.\<close>

record catalog =
  products :: "ustr \<rightharpoonup> product"
  offers :: "ustr \<rightharpoonup> offer list"

text \<open>Lines 71-74: the specs of a record, \<open>{}\<close> when \<open>json.loads\<close> raises.\<close>

definition parse_specs :: "runtime \<Rightarrow> item \<Rightarrow> json" where
  "parse_specs rt r =
     (case json_loads rt (or_else (specs_json r) (ustr ''{}'')) of
        Some v \<Rightarrow> v
      | None \<Rightarrow> JDict [])"

definition product_of :: "runtime \<Rightarrow> item \<Rightarrow> product" where
  "product_of rt r =
     \<lparr> p_slug = product_slug r, p_category = category r, p_name = product_name r,
       p_brand = brand r, p_model = model r, p_gtin = gtin r, p_mpn = mpn r,
       p_specs = parse_specs rt r \<rparr>"

definition offer_of :: "runtime \<Rightarrow> item \<Rightarrow> offer" where
  "offer_of rt r =
     \<lparr> o_merchant = merchant r, o_availability = availability r, o_price = price r,
       o_shipping = shipping r, o_currency = currency r, o_url = url r,
       o_total = fadd rt (price r) (shipping r), o_updated_at = updated_at r \<rparr>"

text \<open>The loop body of \<open>group_by_product\<close> (lines 69-95).\<close>

definition group_step :: "runtime \<Rightarrow> item \<Rightarrow> catalog \<Rightarrow> catalog" where
  "group_step rt r st =
     (let slug = product_slug r;
          ps = (if products st slug = None then (products st)(slug \<mapsto> product_of rt r)
                else products st);
          old = (case offers st slug of Some l \<Rightarrow> l | None \<Rightarrow> [])
      in \<lparr> products = ps, offers = (offers st)(slug \<mapsto> old @ [offer_of rt r]) \<rparr>)"

fun group_loop :: "runtime \<Rightarrow> item list \<Rightarrow> catalog \<Rightarrow> catalog" where
  "group_loop rt [] st = st"
| "group_loop rt (r # rows) st = group_loop rt rows (group_step rt r st)"

definition group_by_product :: "runtime \<Rightarrow> item list \<Rightarrow> catalog" where
  "group_by_product rt rows = group_loop rt rows \<lparr> products = Map.empty, offers = Map.empty \<rparr>"

section \<open>Derived values\<close>

datatype py_error = ValueError | IndexError

text \<open>
  \<open>min(offs, key=lambda o: o["total"])\<close>: the first offer is kept until a later one has a
  smaller total; \<open>ValueError\<close> on an empty list.
\<close>

fun min_loop :: "offer \<Rightarrow> offer list \<Rightarrow> offer" where
  "min_loop best [] = best"
| "min_loop best (x # xs) = min_loop (if flt (o_total x) (o_total best) then x else best) xs"

definition min_offer :: "offer list \<Rightarrow> py_error + offer" where
  "min_offer offs = (case offs of [] \<Rightarrow> Inl ValueError | x # xs \<Rightarrow> Inr (min_loop x xs))"

text \<open>\<open>max(o["total"] for o in offs)\<close>.\<close>

fun max_loop :: "pyfloat \<Rightarrow> pyfloat list \<Rightarrow> pyfloat" where
  "max_loop best [] = best"
| "max_loop best (t # ts) = max_loop (if fgt t best then t else best) ts"

definition max_total :: "offer list \<Rightarrow> py_error + pyfloat" where
  "max_total offs =
     (case map o_total offs of [] \<Rightarrow> Inl ValueError | t # ts \<Rightarrow> Inr (max_loop t ts))"

text \<open>
  \<open>sorted(offs, key=lambda o: o["total"])\<close>: a stable sort that compares with \<open><\<close> only.
  When every two totals are comparable the result is the one stable ordering, which the
  insertion below computes.
\<close>

fun insert_offer :: "offer \<Rightarrow> offer list \<Rightarrow> offer list" where
  "insert_offer x [] = [x]"
| "insert_offer x (y # ys) =
     (if flt (o_total y) (o_total x) then y # insert_offer x ys else x # y # ys)"

definition sorted_offers :: "offer list \<Rightarrow> offer list" where
  "sorted_offers offs = foldr insert_offer offs []"

text \<open>
  What \<open>render_index\<close> shows for one product (lines 102-111): the cheapest offer and the
  number of offers.
\<close>

record index_row =
  cheapest :: offer
  count :: nat

definition index_row_of :: "offer list \<Rightarrow> py_error + index_row" where
  "index_row_of offs =
     (case min_offer offs of
        Inl e \<Rightarrow> Inl e
      | Inr m \<Rightarrow> Inr \<lparr> cheapest = m, count = length offs \<rparr>)"

text \<open>
  The \<open>AggregateOffer\<close> of \<open>render_product\<close> (lines 118 and 140-146), before its numbers
  are formatted.
\<close>

record aggregate_offer =
  firstOffer :: offer
  lowPrice :: pyfloat
  highPrice :: pyfloat
  offerCount :: nat

definition aggregate_offer_of :: "offer list \<Rightarrow> py_error + aggregate_offer" where
  "aggregate_offer_of offs =
     (let offs_sorted = sorted_offers offs in
      case offs_sorted of
        [] \<Rightarrow> Inl IndexError
      | x # xs \<Rightarrow>
          (case max_total offs_sorted of
             Inl e \<Rightarrow> Inl e
           | Inr h \<Rightarrow>
               Inr \<lparr> firstOffer = x, lowPrice = o_total x, highPrice = h,
                     offerCount = length offs_sorted \<rparr>))"

section \<open>Notions used in the statements\<close>

text \<open>
  The shape of a value of \<open>slugify\<close>: not empty, made of the characters \<open>a-z\<close>, \<open>0-9\<close> and
  the hyphen, with no hyphen at either end and no two hyphens in a row.
\<close>

fun nodbl :: "ustr \<Rightarrow> bool" where
  "nodbl [] = True"
| "nodbl [c] = True"
| "nodbl (a # b # cs) = (\<not> (a = 45 \<and> b = 45) \<and> nodbl (b # cs))"

definition is_slug :: "ustr \<Rightarrow> bool" where
  "is_slug r \<longleftrightarrow> r \<noteq> [] \<and> list_all slug_char r \<and> hd r \<noteq> 45 \<and> last r \<noteq> 45 \<and> nodbl r"

text \<open>
  The first offer of least total, computed from the end of the list: the later offers'
  choice is kept only when its total is smaller than the total of the offer before them.
\<close>

fun fmin :: "offer \<Rightarrow> offer list \<Rightarrow> offer" where
  "fmin x [] = x"
| "fmin x (y # ys) = (let m = fmin y ys in if flt (o_total m) (o_total x) then m else x)"

section \<open>Sample data\<close>

text \<open>
  The theorems below hold for every runtime. To evaluate the model on concrete rows a
  runtime has to be fixed; \<open>sample_rt\<close> is one that agrees with CPython on the texts of
  this section and is not meant beyond them:
  \<^item> \<open>sample_float\<close> reads an optionally signed run of ASCII digits (exact below \<open>2^53\<close>)
    and \<open>nan\<close>, and rejects the empty text and the other texts used here;
  \<^item> \<open>sample_loads\<close> reads the two JSON texts \<open>{}\<close> and \<open>{"a": 1}\<close> and rejects the
    text \<open>{bad\<close>;
  \<^item> rounding is exact on the small integers added here, and no sample text has a code
    point of 256 or above.
\<close>

fun digits_val :: "nat \<Rightarrow> ustr \<Rightarrow> nat option" where
  "digits_val acc [] = Some acc"
| "digits_val acc (c # cs) =
     (if 48 \<le> c \<and> c \<le> 57 then digits_val (10 * acc + (c - 48)) cs else None)"

definition sample_float :: "ustr \<Rightarrow> pyfloat option" where
  "sample_float s =
     (if s = ustr ''nan'' then Some NaN
      else case s of
        [] \<Rightarrow> None
      | c # cs \<Rightarrow>
          if c = 45 then (if cs = [] then None else map_option (\<lambda>n. Fin (- of_nat n)) (digits_val 0 cs))
          else map_option (\<lambda>n. Fin (of_nat n)) (digits_val 0 s))"

definition sample_loads :: "ustr \<Rightarrow> json option" where
  "sample_loads s =
     (if s = ustr ''{}'' then Some (JDict [])
      else if s = ustr ''{\"a\": 1}'' then Some (JDict [(ustr ''a'', JInt 1)])
      else None)"

definition sample_rt :: runtime where
  "sample_rt = \<lparr> unicode_lower = (\<lambda>s i. [s ! i]), float_of_str = sample_float,
                 float_round = Fin, json_loads = sample_loads \<rparr>"

definition sample_clock :: "nat \<Rightarrow> ustr" where
  "sample_clock i = ustr ''2024-01-01T00:00:00''"

text \<open>
  The scenario of section 8 of the specification: two merchants offer \<open>bosch-gsr-12\<close>, and
  a third row has an empty price.
\<close>

definition row_shop_a :: rawrow where
  "row_shop_a = [''product_slug'' \<mapsto> ustr ''bosch-gsr-12'', ''brand'' \<mapsto> ustr ''Bosch'',
                 ''merchant'' \<mapsto> ustr ''Shop A'', ''price'' \<mapsto> ustr ''4500'',
                 ''shipping'' \<mapsto> ustr ''120'', ''url'' \<mapsto> ustr ''https://a.example/gsr'']"

definition row_shop_b :: rawrow where
  "row_shop_b = [''product_slug'' \<mapsto> ustr ''bosch-gsr-12'', ''brand'' \<mapsto> ustr ''BOSCH'',
                 ''merchant'' \<mapsto> ustr ''Shop B'', ''price'' \<mapsto> ustr ''4399'',
                 ''shipping'' \<mapsto> ustr ''0'', ''url'' \<mapsto> ustr ''https://b.example/gsr'']"

definition row_no_price :: rawrow where
  "row_no_price = [''product_slug'' \<mapsto> ustr ''bosch-gsr-12'', ''merchant'' \<mapsto> ustr ''Shop C'',
                   ''price'' \<mapsto> [], ''url'' \<mapsto> ustr ''https://c.example/gsr'']"

definition sample_items :: "item list" where
  "sample_items = normalize_rows sample_rt sample_clock [row_shop_a, row_no_price, row_shop_b]"

definition item_a :: item where
  "item_a = \<lparr> category = [], product_slug = ustr ''bosch-gsr-12'', product_name = ustr ''Bosch'',
      brand = ustr ''Bosch'', model = [], gtin = [], mpn = [], specs_json = [],
      merchant = ustr ''Shop A'', price = Fin 4500, currency = ustr ''RUB'', shipping = Fin 120,
      url = ustr ''https://a.example/gsr'', availability = [],
      updated_at = ustr ''2024-01-01T00:00:00Z'' \<rparr>"

definition item_b :: item where
  "item_b = \<lparr> category = [], product_slug = ustr ''bosch-gsr-12'', product_name = ustr ''BOSCH'',
      brand = ustr ''BOSCH'', model = [], gtin = [], mpn = [], specs_json = [],
      merchant = ustr ''Shop B'', price = Fin 4399, currency = ustr ''RUB'', shipping = Fin 0,
      url = ustr ''https://b.example/gsr'', availability = [],
      updated_at = ustr ''2024-01-01T00:00:00Z'' \<rparr>"

text \<open>A row with a brand and a product name, and neither slug nor model.\<close>

definition row_brand_only :: rawrow where
  "row_brand_only = [''brand'' \<mapsto> ustr ''Bosch'', ''product_name'' \<mapsto> ustr ''Drill'']"

text \<open>A complete row whose shipping text is a negative number.\<close>

definition row_neg_ship :: rawrow where
  "row_neg_ship = [''product_slug'' \<mapsto> ustr ''p'', ''merchant'' \<mapsto> ustr ''m'',
                   ''price'' \<mapsto> ustr ''10'', ''shipping'' \<mapsto> ustr ''-5'',
                   ''url'' \<mapsto> ustr ''u'']"

text \<open>
  Two complete rows of one slug: the first with well-formed specs, the second with specs
  that \<open>json.loads\<close> rejects.
\<close>

definition row_good_specs :: rawrow where
  "row_good_specs = [''product_slug'' \<mapsto> ustr ''p'', ''merchant'' \<mapsto> ustr ''m'',
                     ''price'' \<mapsto> ustr ''10'', ''url'' \<mapsto> ustr ''u'',
                     ''specs_json'' \<mapsto> ustr ''{\"a\": 1}'']"

definition row_bad_specs :: rawrow where
  "row_bad_specs = [''product_slug'' \<mapsto> ustr ''p'', ''merchant'' \<mapsto> ustr ''n'',
                    ''price'' \<mapsto> ustr ''5'', ''url'' \<mapsto> ustr ''v'',
                    ''specs_json'' \<mapsto> ustr ''{bad'']"

definition item_good_specs :: item where
  "item_good_specs = \<lparr> category = [], product_slug = ustr ''p'', product_name = [],
      brand = [], model = [], gtin = [], mpn = [], specs_json = ustr ''{\"a\": 1}'',
      merchant = ustr ''m'', price = Fin 10, currency = ustr ''RUB'', shipping = Fin 0,
      url = ustr ''u'', availability = [], updated_at = ustr ''2024-01-01T00:00:00Z'' \<rparr>"

definition item_bad_specs :: item where
  "item_bad_specs = \<lparr> category = [], product_slug = ustr ''p'', product_name = [],
      brand = [], model = [], gtin = [], mpn = [], specs_json = ustr ''{bad'',
      merchant = ustr ''n'', price = Fin 5, currency = ustr ''RUB'', shipping = Fin 0,
      url = ustr ''v'', availability = [], updated_at = ustr ''2024-01-01T00:00:00Z'' \<rparr>"

text \<open>A second runtime, which differs from \<open>sample_rt\<close> in its case table and its \<open>float\<close>.\<close>

definition other_rt :: runtime where
  "other_rt = sample_rt \<lparr> unicode_lower := (\<lambda>s i. []), float_of_str := (\<lambda>s. None) \<rparr>"

text \<open>
  Offers with given totals, for the example of section 8 of the specification. The totals
  120.50 and 99.99 are written as the rationals they name; the binary64 values nearest to
  them are in the same order.
\<close>

definition offer_at :: "string \<Rightarrow> pyfloat \<Rightarrow> offer" where
  "offer_at m t =
     \<lparr> o_merchant = ustr m, o_availability = [], o_price = t, o_shipping = Fin 0,
       o_currency = ustr ''RUB'', o_url = ustr ''u'', o_total = t, o_updated_at = [] \<rparr>"

definition example_offers :: "offer list" where
  "example_offers =
     [offer_at ''a'' (Fin (241 / 2)), offer_at ''b'' (Fin (9999 / 100)),
      offer_at ''c'' (Fin (9999 / 100))]"

text \<open>
  Two complete rows of one slug; the shipping text of the first is \<open>nan\<close>, which \<open>float\<close>
  reads as a NaN. \<open>nan_offers\<close> are the offers of their slug in the catalog.
\<close>

definition row_nan_ship :: rawrow where
  "row_nan_ship = [''product_slug'' \<mapsto> ustr ''p'', ''merchant'' \<mapsto> ustr ''m'',
                   ''price'' \<mapsto> ustr ''10'', ''shipping'' \<mapsto> ustr ''nan'',
                   ''url'' \<mapsto> ustr ''u'']"

definition row_cheap :: rawrow where
  "row_cheap = [''product_slug'' \<mapsto> ustr ''p'', ''merchant'' \<mapsto> ustr ''n'',
                ''price'' \<mapsto> ustr ''5'', ''url'' \<mapsto> ustr ''v'']"

definition nan_offers :: "offer list" where
  "nan_offers =
     (case offers (group_by_product sample_rt
                     (normalize_rows sample_rt sample_clock [row_nan_ship, row_cheap]))
             (ustr ''p'') of
        Some l \<Rightarrow> l
      | None \<Rightarrow> [])"

section \<open>Properties of \<open>slugify\<close>\<close>

lemma sub_runs_id: "\<forall>c\<in>set s. \<not> P c \<Longrightarrow> sub_runs P b s = s"
  by (induction s arbitrary: b) auto


lemma sub_runs_slug: "\<forall>c\<in>set (sub_runs (\<lambda>c. \<not> slug_char c) b s). slug_char c"
  by (induction s arbitrary: b) (auto simp: slug_char_def)

lemma sub_runs_hyphen_slug: "\<forall>c\<in>set s. slug_char c \<Longrightarrow> \<forall>c\<in>set (sub_runs (\<lambda>c. c = 45) b s). slug_char c"
  by (induction s arbitrary: b) (auto simp: slug_char_def)

lemma sub_runs_hyphen_nodbl:
  "nodbl (sub_runs (\<lambda>c. c = 45) b s) \<and> (b \<longrightarrow> sub_runs (\<lambda>c. c = 45) b s = [] \<or> hd (sub_runs (\<lambda>c. c = 45) b s) \<noteq> 45)"
proof (induction s arbitrary: b)
  case Nil
  then show ?case by simp
next
  case (Cons c cs)
  show ?case
  proof (cases "c = 45")
    case True
    from Cons[of True] show ?thesis using True
      by (cases "sub_runs (\<lambda>c. c = 45) True cs") auto
  next
    case False
    from Cons[of False] show ?thesis using False
      by (cases "sub_runs (\<lambda>c. c = 45) False cs") auto
  qed
qed

lemma sub_runs_hyphen_fix:
  "nodbl s \<Longrightarrow> (b \<longrightarrow> s = [] \<or> hd s \<noteq> 45) \<Longrightarrow> sub_runs (\<lambda>c. c = 45) b s = s"
proof (induction s arbitrary: b)
  case Nil
  then show ?case by simp
next
  case (Cons c cs)
  then show ?case by (cases cs) auto
qed

lemma nodbl_append: "nodbl (a @ b) \<Longrightarrow> nodbl a \<and> nodbl b"
  by (induction a rule: nodbl.induct) (auto elim: nodbl.elims)

lemma dropWhile_rev_split: "d = rev (dropWhile P (rev d)) @ rev (takeWhile P (rev d))"
proof -
  have "rev d = takeWhile P (rev d) @ dropWhile P (rev d)" by simp
  then have "rev (rev d) = rev (takeWhile P (rev d) @ dropWhile P (rev d))" by (rule arg_cong)
  then show ?thesis by (simp only: rev_rev_ident rev_append)
qed

lemma strip_where_infix: "\<exists>a b. s = a @ strip_where P s @ b"
proof -
  have "dropWhile P s = strip_where P s @ rev (takeWhile P (rev (dropWhile P s)))"
    unfolding strip_where_def by (rule dropWhile_rev_split)
  moreover have "s = takeWhile P s @ dropWhile P s" by simp
  ultimately show ?thesis by metis
qed

lemma dropWhile_hd_fix: "s \<noteq> [] \<Longrightarrow> \<not> P (hd s) \<Longrightarrow> dropWhile P s = s"
  by (cases s) auto

lemma strip_where_ends:
  assumes "strip_where P s \<noteq> []"
  shows "\<not> P (hd (strip_where P s)) \<and> \<not> P (last (strip_where P s))"
proof -
  let ?d = "dropWhile P s"
  let ?e = "dropWhile P (rev ?d)"
  from assms have e: "?e \<noteq> []" by (simp add: strip_where_def)
  then have he: "\<not> P (hd ?e)" by (rule hd_dropWhile)
  have d: "?d \<noteq> []"
  proof
    assume "?d = []"
    then have "?e = []" by (simp only: rev.simps dropWhile.simps)
    with e show False by simp
  qed
  then have hd: "\<not> P (hd ?d)" by (rule hd_dropWhile)
  have "last (strip_where P s) = hd ?e" using e by (simp add: strip_where_def last_rev)
  moreover have "hd (strip_where P s) = hd ?d"
  proof -
    have "?d = strip_where P s @ rev (takeWhile P (rev ?d))"
      unfolding strip_where_def by (rule dropWhile_rev_split)
    then have "hd ?d = hd (strip_where P s @ rev (takeWhile P (rev ?d)))" by (rule arg_cong)
    then show ?thesis using assms by simp
  qed
  ultimately show ?thesis using he hd by simp
qed

lemma strip_where_fix:
  assumes "s \<noteq> []" "\<not> P (hd s)" "\<not> P (last s)"
  shows "strip_where P s = s"
proof -
  have 1: "dropWhile P s = s" using assms by (simp add: dropWhile_hd_fix)
  have "rev s \<noteq> []" "\<not> P (hd (rev s))" using assms by (simp_all add: hd_rev)
  then have 2: "dropWhile P (rev s) = rev s" by (rule dropWhile_hd_fix)
  show ?thesis by (simp add: strip_where_def 1 2)
qed


lemma lower_at_slug: "i < length s \<Longrightarrow> slug_char (s ! i) \<Longrightarrow> lower_at rt s i = [s ! i]"
  by (auto simp: lower_at_def slug_char_def Let_def)

lemma concat_map_single: "\<forall>x\<in>set xs. f x = [g x] \<Longrightarrow> concat (map f xs) = map g xs"
  by (induction xs) auto

lemma py_lower_slug:
  assumes "list_all slug_char s"
  shows "py_lower rt s = s"
proof -
  have "\<forall>i\<in>set [0..<length s]. lower_at rt s i = [s ! i]"
    using assms by (auto simp: lower_at_slug list_all_length)
  then have "py_lower rt s = map ((!) s) [0..<length s]"
    unfolding py_lower_def by (rule concat_map_single)
  also have "\<dots> = s" by (rule map_nth)
  finally show ?thesis .
qed

lemma replace_char_absent: "a \<notin> set s \<Longrightarrow> replace_char a b s = s"
  by (induction s) (auto simp: replace_char_def)

lemma slugify_fix:
  assumes "is_slug r"
  shows "slugify rt r = r"
proof -
  from assms have ne: "r \<noteq> []" and all: "list_all slug_char r" and h: "hd r \<noteq> 45"
    and l: "last r \<noteq> 45" and nd: "nodbl r" by (simp_all add: is_slug_def)
  have 1: "py_lower rt r = r" using all by (rule py_lower_slug)
  have "32 \<notin> set r" using all by (auto simp: list_all_iff slug_char_def)
  then have 2: "replace_char 32 45 r = r" by (rule replace_char_absent)
  have 3: "re_sub_runs (\<lambda>c. \<not> slug_char c) r = r"
    unfolding re_sub_runs_def using all by (intro sub_runs_id) (simp add: list_all_iff)
  have 4: "re_sub_runs (\<lambda>c. c = 45) r = r"
    unfolding re_sub_runs_def using nd by (intro sub_runs_hyphen_fix) simp_all
  have 5: "strip_where (\<lambda>c. c = 45) r = r" using ne h l by (intro strip_where_fix) simp_all
  show ?thesis using ne by (simp add: slugify_def 1 2 3 4 5)
qed

lemma is_slug_product: "is_slug (ustr ''product'')"
  by (simp add: is_slug_def ustr_def slug_char_def)

lemma is_slug_slugify: "is_slug (slugify rt x)"
proof -
  let ?t2 = "re_sub_runs (\<lambda>c. \<not> slug_char c) (replace_char 32 45 (py_lower rt x))"
  let ?t3 = "re_sub_runs (\<lambda>c. c = 45) ?t2"
  let ?t4 = "strip_where (\<lambda>c. c = 45) ?t3"
  have a2: "\<forall>c\<in>set ?t2. slug_char c" unfolding re_sub_runs_def by (rule sub_runs_slug)
  then have a3: "\<forall>c\<in>set ?t3. slug_char c" unfolding re_sub_runs_def by (rule sub_runs_hyphen_slug)
  have n3: "nodbl ?t3" unfolding re_sub_runs_def using sub_runs_hyphen_nodbl by blast
  obtain a b where ab: "?t3 = a @ ?t4 @ b" using strip_where_infix by blast
  have a4: "list_all slug_char ?t4"
  proof -
    have "set ?t4 \<subseteq> set ?t3" by (subst (2) ab) auto
    then show ?thesis using a3 by (auto simp: list_all_iff)
  qed
  have n4: "nodbl ?t4"
  proof -
    from n3 ab have "nodbl (a @ ?t4 @ b)" by simp
    then have "nodbl (?t4 @ b)" using nodbl_append by blast
    then show ?thesis using nodbl_append by blast
  qed
  show ?thesis
  proof (cases "?t4 = []")
    case True
    then have "slugify rt x = ustr ''product''" by (simp add: slugify_def)
    then show ?thesis by (simp add: is_slug_product)
  next
    case False
    then have eq: "slugify rt x = ?t4" by (simp add: slugify_def)
    from strip_where_ends[OF False] have "hd ?t4 \<noteq> 45" "last ?t4 \<noteq> 45" by simp_all
    then show ?thesis unfolding eq is_slug_def using False a4 n4 by simp
  qed
qed


lemma slugify_runtime:
  assumes "unicode_lower rt1 = unicode_lower rt2"
  shows "slugify rt1 x = slugify rt2 x"
proof -
  have "lower_at rt1 s i = lower_at rt2 s i" for s i
    unfolding lower_at_def assms by (rule refl)
  then have "lower_at rt1 x = lower_at rt2 x" by (intro ext)
  then have "py_lower rt1 x = py_lower rt2 x" by (simp add: py_lower_def)
  then show ?thesis by (simp add: slugify_def)
qed

text \<open>
  C6. \<open>slugify\<close> is idempotent: its value is a slug, and the slug of a slug is that slug.
  Its value is a function of the text and of the Unicode case table alone: nothing else
  of the runtime has a part in it. \<open>Bosch \<Oslash>10\<close> and \<open>bosch  \<oslash>10\<close>, whose code points 216
  and 248 lie outside ASCII, have the same slug in every runtime.
\<close>

theorem slugify_idempotent:
  "slugify rt (slugify rt x) = slugify rt x \<and>
   is_slug (slugify rt x) \<and>
   (unicode_lower rt1 = unicode_lower rt2 \<longrightarrow> slugify rt1 x = slugify rt2 x) \<and>
   slugify rt (ustr ''Bosch '' @ [216] @ ustr ''10'') = ustr ''bosch-10'' \<and>
   slugify rt (ustr ''bosch  '' @ [248] @ ustr ''10'') = ustr ''bosch-10''"
proof (intro conjI impI)
  show "slugify rt (slugify rt x) = slugify rt x"
    by (rule slugify_fix) (rule is_slug_slugify)
  show "is_slug (slugify rt x)"
    by (rule is_slug_slugify)
  show "slugify rt1 x = slugify rt2 x" if "unicode_lower rt1 = unicode_lower rt2"
    using that by (rule slugify_runtime)
  show "slugify rt (ustr ''Bosch '' @ [216] @ ustr ''10'') = ustr ''bosch-10''"
    by (simp add: slugify_def py_lower_def lower_at_def ustr_def replace_char_def
        re_sub_runs_def slug_char_def strip_where_def upt_rec)
  show "slugify rt (ustr ''bosch  '' @ [248] @ ustr ''10'') = ustr ''bosch-10''"
    by (simp add: slugify_def py_lower_def lower_at_def ustr_def replace_char_def
        re_sub_runs_def slug_char_def strip_where_def upt_rec)
qed

theorem slugify_idempotent_witness:
  "unicode_lower sample_rt = unicode_lower (sample_rt \<lparr> float_of_str := (\<lambda>s. None) \<rparr>) \<and>
   slugify sample_rt (ustr ''Bosch GSR  12--V!'') =
     slugify (sample_rt \<lparr> float_of_str := (\<lambda>s. None) \<rparr>) (ustr ''Bosch GSR  12--V!'') \<and>
   slugify sample_rt (ustr ''Bosch GSR  12--V!'') = ustr ''bosch-gsr-12-v'' \<and>
   slugify sample_rt (ustr ''bosch-gsr-12-v'') = ustr ''bosch-gsr-12-v''"
proof -
  have u: "unicode_lower sample_rt = unicode_lower (sample_rt \<lparr> float_of_str := (\<lambda>s. None) \<rparr>)"
    by simp
  have v: "slugify sample_rt (ustr ''Bosch GSR  12--V!'') = ustr ''bosch-gsr-12-v''"
    by (simp add: slugify_def py_lower_def lower_at_def ustr_def replace_char_def
        re_sub_runs_def slug_char_def strip_where_def upt_rec)
  note t = slugify_idempotent [where rt = sample_rt and x = "ustr ''Bosch GSR  12--V!''"
      and ?rt1.0 = sample_rt and ?rt2.0 = "sample_rt \<lparr> float_of_str := (\<lambda>s. None) \<rparr>"]
  from t u have "slugify sample_rt (ustr ''Bosch GSR  12--V!'') =
      slugify (sample_rt \<lparr> float_of_str := (\<lambda>s. None) \<rparr>) (ustr ''Bosch GSR  12--V!'')"
    by blast
  moreover from t have "slugify sample_rt (slugify sample_rt (ustr ''Bosch GSR  12--V!'')) =
      slugify sample_rt (ustr ''Bosch GSR  12--V!'')"
    by blast
  then have "slugify sample_rt (ustr ''bosch-gsr-12-v'') = ustr ''bosch-gsr-12-v''"
    by (simp only: v)
  ultimately show ?thesis using u v by (intro conjI)
qed

section \<open>Evaluation of the sample data\<close>

lemmas eval_text = row_get_def or_else_def py_strip_def strip_where_def py_isspace_def
  slugify_def py_lower_def lower_at_def ustr_def replace_char_def re_sub_runs_def slug_char_def
  upt_rec
lemmas eval_rt = sample_rt_def sample_float_def sample_loads_def to_float_def fgt_def fle_def


section \<open>Properties of \<open>normalize_rows\<close>\<close>

lemma strip_where_Nil_iff: "strip_where P s = [] \<longleftrightarrow> list_all P s"
proof
  assume a: "strip_where P s = []"
  show "list_all P s"
  proof (rule ccontr)
    assume "\<not> list_all P s"
    then have d: "dropWhile P s \<noteq> []" by (simp add: list_all_iff)
    then have "\<not> P (hd (dropWhile P s))" by (rule hd_dropWhile)
    moreover have "hd (dropWhile P s) \<in> set (rev (dropWhile P s))" using d by simp
    ultimately have "dropWhile P (rev (dropWhile P s)) \<noteq> []" by auto
    with a show False by (simp add: strip_where_def)
  qed
next
  assume "list_all P s"
  then have "dropWhile P s = []" by (simp add: list_all_iff)
  then show "strip_where P s = []"
    by (simp only: strip_where_def rev.simps dropWhile.simps)
qed

lemma py_strip_Nil_iff: "py_strip s = [] \<longleftrightarrow> list_all py_isspace s"
  by (simp add: py_strip_def strip_where_Nil_iff)

lemma py_strip_Nil [simp]: "py_strip [] = []"
  by (simp add: py_strip_def strip_where_def)

lemma is_space_32: "py_isspace 32"
  by (simp add: py_isspace_def)

lemma slugify_Nil: "slugify rt [] = ustr ''product''"
  by (simp add: slugify_def py_lower_def replace_char_def re_sub_runs_def strip_where_def)

lemma slugify_not_Nil: "slugify rt x \<noteq> []"
  by (simp add: slugify_def ustr_def Let_def)
lemma product_slug_not_Nil: "product_slug (item_of_row rt now r) \<noteq> []"
  by (simp add: item_of_row_def or_else_def slugify_not_Nil)

lemma accepted_iff:
  "accepted (item_of_row rt now r) \<longleftrightarrow>
     py_strip (row_get r ''merchant'' []) \<noteq> [] \<and> py_strip (row_get r ''url'' []) \<noteq> [] \<and>
     fgt (to_float rt (row_get r ''price'' (ustr ''0''))) (Fin 0)"
  unfolding accepted_def using product_slug_not_Nil[of rt now r]
  by (auto simp: item_of_row_def)

lemma fle_not_fgt: "fle x y \<Longrightarrow> \<not> fgt x y"
  by (cases x; cases y) (auto simp: fle_def fgt_def)

lemma normalize_row_None:
  assumes "row_get r ''url'' [] = [] \<or> row_get r ''merchant'' [] = [] \<or>
           fle (to_float rt (row_get r ''price'' (ustr ''0''))) (Fin 0)"
  shows "normalize_row rt now r = None"
  using assms fle_not_fgt by (auto simp: normalize_row_def Let_def accepted_iff)

lemma normalize_row_Some:
  assumes "normalize_row rt now r = Some it"
  shows "it = item_of_row rt now r \<and> accepted it"
  using assms by (auto simp: normalize_row_def Let_def split: if_splits)

lemma normalize_loop_eq:
  "normalize_loop rt clock i rows acc =
     acc @ List.map_filter (\<lambda>(j, r). normalize_row rt (clock j) r) (List.enumerate i rows)"
  by (induction rows arbitrary: i acc) (auto simp: List.map_filter_simps split: option.splits)

lemma normalize_rows_eq:
  "normalize_rows rt clock rows =
     List.map_filter (\<lambda>(j, r). normalize_row rt (clock j) r) (List.enumerate 0 rows)"
  by (simp add: normalize_rows_def normalize_loop_eq)

lemma in_normalize_rows:
  assumes "it \<in> set (normalize_rows rt clock rows)"
  shows "\<exists>j<length rows. normalize_row rt (clock j) (rows ! j) = Some it"
proof -
  from assms obtain j r where jr: "(j, r) \<in> set (List.enumerate 0 rows)"
    and s: "normalize_row rt (clock j) r = Some it"
    by (auto simp: normalize_rows_eq List.map_filter_def)
  from jr have "j < length rows" "r = rows ! j" by (auto simp: in_set_enumerate_eq)
  with s show ?thesis by auto
qed

lemma item_shop_a: "item_of_row sample_rt (sample_clock i) row_shop_a = item_a"
  by (simp add: item_of_row_def row_shop_a_def item_a_def sample_clock_def eval_text eval_rt)

lemma item_shop_b: "item_of_row sample_rt (sample_clock i) row_shop_b = item_b"
  by (simp add: item_of_row_def row_shop_b_def item_b_def sample_clock_def eval_text eval_rt)

lemma price_no_price: "to_float sample_rt (row_get row_no_price ''price'' (ustr ''0'')) = Fin 0"
  by (simp add: row_no_price_def eval_text eval_rt)

lemma norm_a: "normalize_row sample_rt (sample_clock i) row_shop_a = Some item_a"
  by (simp add: normalize_row_def item_shop_a) (simp add: accepted_def item_a_def ustr_def fgt_def)

lemma norm_b: "normalize_row sample_rt (sample_clock i) row_shop_b = Some item_b"
  by (simp add: normalize_row_def item_shop_b) (simp add: accepted_def item_b_def ustr_def fgt_def)

lemma norm_no_price: "normalize_row sample_rt now row_no_price = None"
  by (simp add: normalize_row_def accepted_iff price_no_price fgt_def)

lemma sample_items_eq: "sample_items = [item_a, item_b]"
  by (simp add: sample_items_def normalize_rows_def norm_a norm_b norm_no_price)

section \<open>Properties of \<open>group_by_product\<close>\<close>

lemma group_step_products:
  "products (group_step rt r st) slug =
     (case products st slug of Some p \<Rightarrow> Some p
      | None \<Rightarrow> if product_slug r = slug then Some (product_of rt r) else None)"
  by (auto simp: group_step_def Let_def split: option.splits)

lemma group_step_offers:
  "offers (group_step rt r st) slug =
     (if product_slug r = slug
      then Some ((case offers st slug of Some l \<Rightarrow> l | None \<Rightarrow> []) @ [offer_of rt r])
      else offers st slug)"
  by (auto simp: group_step_def Let_def)

lemma group_loop_products:
  "products (group_loop rt rows st) slug =
     (case products st slug of Some p \<Rightarrow> Some p
      | None \<Rightarrow> map_option (product_of rt) (find (\<lambda>r. product_slug r = slug) rows))"
  by (induction rows arbitrary: st) (auto simp: group_step_products split: option.splits)

lemma group_loop_offers:
  "offers (group_loop rt rows st) slug =
     (if filter (\<lambda>r. product_slug r = slug) rows = [] then offers st slug
      else Some ((case offers st slug of Some l \<Rightarrow> l | None \<Rightarrow> []) @
                 map (offer_of rt) (filter (\<lambda>r. product_slug r = slug) rows)))"
  by (induction rows arbitrary: st) (auto simp: group_step_offers split: option.splits)

lemma group_loop_append: "group_loop rt (xs @ ys) st = group_loop rt ys (group_loop rt xs st)"
  by (induction xs arbitrary: st) auto

lemma group_by_product_snoc:
  "group_by_product rt (rows @ [r]) = group_step rt r (group_by_product rt rows)"
  by (simp add: group_by_product_def group_loop_append)

lemma gbp_products:
  "products (group_by_product rt rows) slug =
     map_option (product_of rt) (find (\<lambda>r. product_slug r = slug) rows)"
  by (simp add: group_by_product_def group_loop_products)

lemma gbp_offers:
  "offers (group_by_product rt rows) slug =
     (if filter (\<lambda>r. product_slug r = slug) rows = [] then None
      else Some (map (offer_of rt) (filter (\<lambda>r. product_slug r = slug) rows)))"
  by (simp add: group_by_product_def group_loop_offers)

lemma find_None_filter: "find P xs = None \<longleftrightarrow> filter P xs = []"
  by (induction xs) auto

lemma gbp_nonempty:
  assumes "products (group_by_product rt rows) slug = Some p"
  shows "\<exists>offs. offers (group_by_product rt rows) slug = Some offs \<and> offs \<noteq> [] "
proof -
  from assms have "find (\<lambda>r. product_slug r = slug) rows \<noteq> None" by (auto simp: gbp_products)
  then have "filter (\<lambda>r. product_slug r = slug) rows \<noteq> []" by (simp add: find_None_filter)
  then show ?thesis by (simp add: gbp_offers)
qed

lemma group_loop_rt:
  assumes "json_loads rt1 = json_loads rt2" "float_round rt1 = float_round rt2"
  shows "group_loop rt1 rows st = group_loop rt2 rows st"
proof -
  have f: "fadd rt1 x y = fadd rt2 x y" for x y
    using assms(2) by (cases x; cases y) auto
  have p: "product_of rt1 r = product_of rt2 r" for r
    using assms(1) by (simp add: product_of_def parse_specs_def)
  have o: "offer_of rt1 r = offer_of rt2 r" for r
    using f by (simp add: offer_of_def)
  have "group_step rt1 r s = group_step rt2 r s" for r s
    unfolding group_step_def p o by (rule refl)
  then show ?thesis by (induction rows arbitrary: st) auto
qed

section \<open>Properties of the derived values\<close>

lemma flt_trans: "flt a b \<Longrightarrow> flt b c \<Longrightarrow> flt a c"
  by (cases a; cases b; cases c) auto

lemma flt_irrefl: "\<not> flt a a"
  by (cases a) auto

lemma le_flt_trans: "c \<noteq> NaN \<Longrightarrow> flt a b \<Longrightarrow> \<not> flt c b \<Longrightarrow> flt a c"
  by (cases a; cases b; cases c) auto

lemma le_le_trans: "b \<noteq> NaN \<Longrightarrow> \<not> flt b a \<Longrightarrow> \<not> flt c b \<Longrightarrow> \<not> flt c a"
  by (cases a; cases b; cases c) auto

lemma fmin_mem: "fmin x xs \<in> set (x # xs)"
  by (induction x xs rule: fmin.induct) (auto simp: Let_def)

lemma pick_min:
  assumes "tb \<noteq> NaN" "tx \<noteq> NaN" "tm \<noteq> NaN"
  shows "(if flt tm (if flt tx tb then tx else tb) then M else (if flt tx tb then X else B)) =
         (if flt (if flt tm tx then tm else tx) tb then (if flt tm tx then M else X) else B)"
  using assms by (cases tb; cases tx; cases tm) auto

lemma min_loop_fmin:
  assumes "\<forall>o'\<in>set (best # xs). o_total o' \<noteq> NaN"
  shows "min_loop best xs = fmin best xs"
  using assms
proof (induction xs arbitrary: best)
  case Nil
  then show ?case by simp
next
  case (Cons x xs)
  let ?b = "if flt (o_total x) (o_total best) then x else best"
  have "\<forall>o'\<in>set (?b # xs). o_total o' \<noteq> NaN" using Cons.prems by simp
  then have ih: "min_loop ?b xs = fmin ?b xs" by (rule Cons.IH)
  have nb: "o_total best \<noteq> NaN" and nx: "o_total x \<noteq> NaN" using Cons.prems by simp_all
  show ?case
  proof (cases xs)
    case Nil
    then show ?thesis by simp
  next
    case c: (Cons y ys)
    let ?m = "fmin y ys"
    have mem: "?m \<in> set (y # ys)" by (rule fmin_mem)
    have "\<forall>o'\<in>set (y # ys). o_total o' \<noteq> NaN" using Cons.prems c by simp
    then have nm: "o_total ?m \<noteq> NaN" using mem by blast
    have tb: "o_total ?b = (if flt (o_total x) (o_total best) then o_total x else o_total best)"
      by simp
    have tm: "o_total (if flt (o_total ?m) (o_total x) then ?m else x) =
               (if flt (o_total ?m) (o_total x) then o_total ?m else o_total x)" by simp
    have "min_loop best (x # xs) = fmin ?b (y # ys)" using ih c by simp
    also have "\<dots> = (if flt (o_total ?m) (o_total ?b) then ?m else ?b)" by (simp add: Let_def)
    also have "\<dots> = (if flt (o_total ?m) (if flt (o_total x) (o_total best) then o_total x else o_total best)
                      then ?m else (if flt (o_total x) (o_total best) then x else best))"
      by (simp only: tb)
    also have "\<dots> = (if flt (if flt (o_total ?m) (o_total x) then o_total ?m else o_total x) (o_total best)
                      then (if flt (o_total ?m) (o_total x) then ?m else x) else best)"
      by (rule pick_min[OF nb nx nm])
    also have "\<dots> = fmin best (x # y # ys)" by (simp add: Let_def)
    finally show ?thesis by (simp add: c)
  qed
qed

lemma insert_offer_not_Nil: "insert_offer x ys \<noteq> []"
  by (cases ys) auto

lemma hd_insert_offer:
  "hd (insert_offer x ys) =
     (case ys of [] \<Rightarrow> x | y # _ \<Rightarrow> if flt (o_total y) (o_total x) then y else x)"
  by (cases ys) auto

lemma sorted_offers_Cons: "sorted_offers (x # xs) = insert_offer x (sorted_offers xs)"
  by (simp add: sorted_offers_def)

lemma sorted_offers_Nil_iff: "sorted_offers xs = [] \<longleftrightarrow> xs = []"
  by (cases xs) (simp_all add: sorted_offers_def insert_offer_not_Nil)

lemma hd_sorted_offers: "hd (sorted_offers (x # xs)) = fmin x xs"
proof (induction x xs rule: fmin.induct)
  case (1 x)
  then show ?case by (simp add: sorted_offers_def)
next
  case (2 x y ys)
  have ne: "sorted_offers (y # ys) \<noteq> []" by (simp add: sorted_offers_Nil_iff)
  then obtain h t where ht: "sorted_offers (y # ys) = h # t" by (cases "sorted_offers (y # ys)") auto
  with 2 have h: "h = fmin y ys" by simp
  show ?case
    by (simp add: sorted_offers_Cons[of x] hd_insert_offer ht h Let_def)
qed

lemma length_insert_offer: "length (insert_offer x ys) = Suc (length ys)"
  by (induction ys) auto

lemma length_sorted_offers: "length (sorted_offers xs) = length xs"
  by (induction xs) (auto simp: sorted_offers_Cons length_insert_offer sorted_offers_def)

lemma set_insert_offer: "set (insert_offer x ys) = insert x (set ys)"
  by (induction ys) auto

lemma set_sorted_offers: "set (sorted_offers xs) = set xs"
  by (induction xs) (auto simp: sorted_offers_Cons set_insert_offer sorted_offers_def)

lemma fmin_least:
  assumes "\<forall>o'\<in>set (x # xs). o_total o' \<noteq> NaN"
  shows "\<forall>o'\<in>set (x # xs). \<not> flt (o_total o') (o_total (fmin x xs))"
  using assms
proof (induction x xs rule: fmin.induct)
  case (1 x)
  then show ?case by (simp add: flt_irrefl)
next
  case (2 x y ys)
  let ?m = "fmin y ys"
  have ih: "\<forall>o'\<in>set (y # ys). \<not> flt (o_total o') (o_total ?m)" using 2 by auto
  have "?m \<in> set (y # ys)" by (rule fmin_mem)
  then have nm: "o_total ?m \<noteq> NaN" using 2(2) by auto
  have nx: "o_total x \<noteq> NaN" using 2(2) by auto
  show ?case
  proof (cases "flt (o_total ?m) (o_total x)")
    case True
    then have "\<not> flt (o_total x) (o_total ?m)" using flt_trans flt_irrefl by blast
    with True ih show ?thesis by (simp add: Let_def)
  next
    case False
    have "\<not> flt (o_total o') (o_total x)" if "o' \<in> set (y # ys)" for o'
      using ih that False nm le_le_trans by blast
    with False show ?thesis by (auto simp: Let_def flt_irrefl)
  qed
qed

lemma fmin_first:
  assumes "\<forall>o'\<in>set (x # xs). o_total o' \<noteq> NaN"
  shows "find (\<lambda>o'. o_total o' = o_total (fmin x xs)) (x # xs) = Some (fmin x xs)"
  using assms
proof (induction x xs rule: fmin.induct)
  case (1 x)
  then show ?case by simp
next
  case (2 x y ys)
  let ?m = "fmin y ys"
  have ih: "find (\<lambda>o'. o_total o' = o_total ?m) (y # ys) = Some ?m" using 2 by auto
  show ?case
  proof (cases "flt (o_total ?m) (o_total x)")
    case True
    then have "o_total x \<noteq> o_total ?m" using flt_irrefl by metis
    with True ih show ?thesis by (simp add: Let_def)
  next
    case False
    then show ?thesis by (simp add: Let_def)
  qed
qed

lemma max_loop_props:
  assumes "\<forall>v\<in>set (t # ts). v \<noteq> NaN"
  shows "max_loop t ts \<in> set (t # ts) \<and> (\<forall>v\<in>set (t # ts). \<not> flt (max_loop t ts) v)"
  using assms
proof (induction ts arbitrary: t)
  case Nil
  then show ?case by (simp add: flt_irrefl)
next
  case (Cons x xs)
  let ?b = "if fgt x t then x else t"
  let ?m = "max_loop ?b xs"
  have ih: "?m \<in> set (?b # xs) \<and> (\<forall>v\<in>set (?b # xs). \<not> flt ?m v)"
    using Cons.prems by (intro Cons.IH) auto
  have nt: "t \<noteq> NaN" and nx: "x \<noteq> NaN" using Cons.prems by auto
  have nm: "?m \<noteq> NaN" using ih Cons.prems by (auto split: if_splits)
  show ?case
  proof (cases "fgt x t")
    case True
    then have tx: "flt t x" by (simp add: fgt_def)
    have mx: "\<not> flt ?m x" using ih True by simp
    have "\<not> flt ?m t" using tx mx nx nt nm le_flt_trans flt_irrefl flt_trans by blast
    with ih True show ?thesis by auto
  next
    case False
    then have tx: "\<not> flt t x" by (simp add: fgt_def)
    have mt: "\<not> flt ?m t" using ih False by simp
    have "\<not> flt ?m x" using tx mt nt le_le_trans by blast
    with ih False show ?thesis by auto
  qed
qed

section \<open>Claims about rows\<close>

text \<open>
  C1, as the specification states it, takes the brand and model branch only when both are
  present and the product name otherwise. For a row with a brand, a product name, no
  model and no slug the program takes the brand: the slug is \<open>bosch\<close>, not the slug
  \<open>drill\<close> of the product name.
\<close>

theorem slug_precedence_counterexample:
  "row_get row_brand_only ''product_slug'' [] = [] \<and>
   row_get row_brand_only ''model'' [] = [] \<and>
   product_slug (item_of_row sample_rt [] row_brand_only) = ustr ''bosch'' \<and>
   slugify sample_rt (row_get row_brand_only ''product_name'' []) = ustr ''drill'' \<and>
   product_slug (item_of_row sample_rt [] row_brand_only) \<noteq>
     slugify sample_rt (row_get row_brand_only ''product_name'' [])"
  by (simp add: item_of_row_def row_brand_only_def eval_text eval_rt)

text \<open>
  C1, amended. The slug of a row is: the slug field after trimming, when that is not
  empty; otherwise, when the brand or the model has a character that is not white space,
  \<open>slugify\<close> of the trimmed text \<open>brand + " " + model\<close>; otherwise \<open>slugify\<close> of the product
  name, which is the token \<open>product\<close> for an empty name.
\<close>

theorem slug_precedence:
  "product_slug (item_of_row rt now r) =
     (if \<not> list_all py_isspace (row_get r ''product_slug'' [])
        then py_strip (row_get r ''product_slug'' [])
      else if \<not> (list_all py_isspace (row_get r ''brand'' []) \<and>
                  list_all py_isspace (row_get r ''model'' []))
        then slugify rt (py_strip (row_get r ''brand'' [] @ ustr '' '' @ row_get r ''model'' []))
      else slugify rt (row_get r ''product_name'' []))
   \<and> slugify rt [] = ustr ''product''"
  by (auto simp: item_of_row_def or_else_def py_strip_Nil_iff ustr_def is_space_32
      slugify_Nil[unfolded ustr_def])

text \<open>
  C2. A row whose url is empty, whose merchant is empty, or whose price is at most zero
  gives no item, and the loop goes on with the list it had; every item \<open>normalize_rows\<close>
  returns has a slug, a merchant and a url that are not empty and a price above zero.
\<close>

theorem normalize_drops_incomplete_rows:
  "(row_get r ''url'' [] = [] \<or> row_get r ''merchant'' [] = [] \<or>
    fle (to_float rt (row_get r ''price'' (ustr ''0''))) (Fin 0) \<longrightarrow>
      normalize_row rt now r = None \<and>
      normalize_loop rt clock i (r # rows) acc = normalize_loop rt clock (Suc i) rows acc) \<and>
   (normalize_row rt now r = Some it \<longrightarrow>
      product_slug it \<noteq> [] \<and> merchant it \<noteq> [] \<and> url it \<noteq> [] \<and> fgt (price it) (Fin 0)) \<and>
   (\<forall>it\<in>set (normalize_rows rt clock rows).
      product_slug it \<noteq> [] \<and> merchant it \<noteq> [] \<and> url it \<noteq> [] \<and> fgt (price it) (Fin 0))"
proof (intro conjI impI ballI)
  assume bad: "row_get r ''url'' [] = [] \<or> row_get r ''merchant'' [] = [] \<or>
    fle (to_float rt (row_get r ''price'' (ustr ''0''))) (Fin 0)"
  then show "normalize_row rt now r = None" by (rule normalize_row_None)
  from bad have "normalize_row rt (clock i) r = None" by (rule normalize_row_None)
  then show "normalize_loop rt clock i (r # rows) acc = normalize_loop rt clock (Suc i) rows acc"
    by simp
next
  assume "normalize_row rt now r = Some it"
  then have "accepted it" by (simp add: normalize_row_Some)
  then show "product_slug it \<noteq> []" "merchant it \<noteq> []" "url it \<noteq> []" "fgt (price it) (Fin 0)"
    by (simp_all add: accepted_def)
next
  fix it assume "it \<in> set (normalize_rows rt clock rows)"
  then obtain j where "normalize_row rt (clock j) (rows ! j) = Some it"
    using in_normalize_rows by blast
  then have "accepted it" by (simp add: normalize_row_Some)
  then show "product_slug it \<noteq> []" "merchant it \<noteq> []" "url it \<noteq> []" "fgt (price it) (Fin 0)"
    by (simp_all add: accepted_def)
qed

theorem normalize_drops_incomplete_rows_witness:
  "fle (to_float sample_rt (row_get row_no_price ''price'' (ustr ''0''))) (Fin 0) \<and>
   normalize_row sample_rt (sample_clock 1) row_no_price = None \<and>
   normalize_loop sample_rt sample_clock 1 [row_no_price, row_shop_b] [item_a] =
     normalize_loop sample_rt sample_clock 2 [row_shop_b] [item_a] \<and>
   normalize_row sample_rt (sample_clock 0) row_shop_a = Some item_a \<and>
   product_slug item_a \<noteq> [] \<and> merchant item_a \<noteq> [] \<and> url item_a \<noteq> [] \<and>
   fgt (price item_a) (Fin 0) \<and>
   normalize_rows sample_rt sample_clock [row_shop_a, row_no_price, row_shop_b] = [item_a, item_b]"
proof -
  have bad: "fle (to_float sample_rt (row_get row_no_price ''price'' (ustr ''0''))) (Fin 0)"
    by (simp add: price_no_price fle_def)
  have ok: "normalize_row sample_rt (sample_clock 0) row_shop_a = Some item_a"
    by (rule norm_a)
  have all: "normalize_rows sample_rt sample_clock [row_shop_a, row_no_price, row_shop_b] =
      [item_a, item_b]"
    using sample_items_eq by (simp add: sample_items_def)
  note t = normalize_drops_incomplete_rows
    [where r = row_no_price and rt = sample_rt and now = "sample_clock 1"
       and clock = sample_clock and i = 1 and rows = "[row_shop_b]" and acc = "[item_a]"]
  from t bad have "normalize_row sample_rt (sample_clock 1) row_no_price = None"
    and "normalize_loop sample_rt sample_clock 1 [row_no_price, row_shop_b] [item_a] =
         normalize_loop sample_rt sample_clock (Suc 1) [row_shop_b] [item_a]"
    by simp_all
  moreover from normalize_drops_incomplete_rows
      [where rt = sample_rt and now = "sample_clock 0" and r = row_shop_a and it = item_a] ok
  have "product_slug item_a \<noteq> [] \<and> merchant item_a \<noteq> [] \<and> url item_a \<noteq> [] \<and>
        fgt (price item_a) (Fin 0)"
    by blast
  ultimately show ?thesis using bad ok all by (simp add: numeral_2_eq_2)
qed

text \<open>
  C8, as the specification states it, makes the shipping of every item non-negative. A
  complete row with the shipping text \<open>-5\<close> is kept, and its shipping is below zero.
\<close>

theorem amounts_counterexample:
  "normalize_rows sample_rt sample_clock [row_neg_ship] =
     [item_of_row sample_rt (sample_clock 0) row_neg_ship] \<and>
   shipping (item_of_row sample_rt (sample_clock 0) row_neg_ship) = Fin (- 5) \<and>
   flt (shipping (item_of_row sample_rt (sample_clock 0) row_neg_ship)) (Fin 0)"
  by (simp add: normalize_rows_def normalize_row_def accepted_def Let_def item_of_row_def
      row_neg_ship_def sample_clock_def eval_text eval_rt)

text \<open>
  C8, amended. The price of every item \<open>normalize_rows\<close> returns is above zero, so it is
  neither negative nor a NaN. Its shipping is what \<open>to_float\<close> gives for the shipping text
  of its row, with no test of the sign. A text that \<open>float\<close> rejects becomes \<open>0.0\<close> in
  either field, and no row makes \<open>normalize_rows\<close> fail: it is a total function.
\<close>

theorem amounts_of_items:
  "(\<forall>it\<in>set (normalize_rows rt clock rows).
      flt (Fin 0) (price it) \<and> fle (Fin 0) (price it) \<and> price it \<noteq> NaN) \<and>
   (normalize_row rt now r = Some it' \<longrightarrow>
      price it' = to_float rt (row_get r ''price'' (ustr ''0'')) \<and>
      shipping it' = to_float rt (row_get r ''shipping'' (ustr ''0''))) \<and>
   (float_of_str rt (py_strip (replace_char 44 46 x)) = None \<longrightarrow> to_float rt x = Fin 0)"
proof (intro conjI impI ballI)
  fix it assume "it \<in> set (normalize_rows rt clock rows)"
  then obtain j where "normalize_row rt (clock j) (rows ! j) = Some it"
    using in_normalize_rows by blast
  then have "accepted it" by (simp add: normalize_row_Some)
  then have p: "flt (Fin 0) (price it)" by (simp add: accepted_def fgt_def)
  then show "flt (Fin 0) (price it)" .
  from p show "fle (Fin 0) (price it)" by (cases "price it") (auto simp: fle_def)
  from p show "price it \<noteq> NaN" by (cases "price it") auto
next
  assume "normalize_row rt now r = Some it'"
  then have "it' = item_of_row rt now r" by (simp add: normalize_row_Some)
  then show "price it' = to_float rt (row_get r ''price'' (ustr ''0''))"
    "shipping it' = to_float rt (row_get r ''shipping'' (ustr ''0''))"
    by (simp_all add: item_of_row_def)
next
  assume "float_of_str rt (py_strip (replace_char 44 46 x)) = None"
  then show "to_float rt x = Fin 0" by (simp add: to_float_def)
qed

theorem amounts_of_items_witness:
  "item_a \<in> set (normalize_rows sample_rt sample_clock [row_shop_a, row_no_price, row_shop_b]) \<and>
   flt (Fin 0) (price item_a) \<and> fle (Fin 0) (price item_a) \<and> price item_a \<noteq> NaN \<and>
   normalize_row sample_rt (sample_clock 0) row_shop_a = Some item_a \<and>
   price item_a = to_float sample_rt (row_get row_shop_a ''price'' (ustr ''0'')) \<and>
   shipping item_a = to_float sample_rt (row_get row_shop_a ''shipping'' (ustr ''0'')) \<and>
   float_of_str sample_rt (py_strip (replace_char 44 46 (ustr ''12,5 rub''))) = None \<and>
   to_float sample_rt (ustr ''12,5 rub'') = Fin 0"
proof -
  have all: "normalize_rows sample_rt sample_clock [row_shop_a, row_no_price, row_shop_b] =
      [item_a, item_b]"
    using sample_items_eq by (simp add: sample_items_def)
  have ok: "normalize_row sample_rt (sample_clock 0) row_shop_a = Some item_a"
    by (rule norm_a)
  have rej: "float_of_str sample_rt (py_strip (replace_char 44 46 (ustr ''12,5 rub''))) = None"
    by (simp add: eval_text eval_rt)
  note t = amounts_of_items
    [where rt = sample_rt and clock = sample_clock
       and rows = "[row_shop_a, row_no_price, row_shop_b]" and now = "sample_clock 0"
       and r = row_shop_a and it' = item_a and x = "ustr ''12,5 rub''"]
  from t all have "flt (Fin 0) (price item_a) \<and> fle (Fin 0) (price item_a) \<and> price item_a \<noteq> NaN"
    by simp
  moreover from t ok have "price item_a = to_float sample_rt (row_get row_shop_a ''price'' (ustr ''0''))"
    "shipping item_a = to_float sample_rt (row_get row_shop_a ''shipping'' (ustr ''0''))"
    by simp_all
  moreover from t rej have "to_float sample_rt (ustr ''12,5 rub'') = Fin 0" by simp
  ultimately show ?thesis using all ok rej by simp
qed

section \<open>Claims about the catalog\<close>

lemma norm_good_specs: "normalize_row sample_rt (sample_clock i) row_good_specs = Some item_good_specs"
  by (simp add: normalize_row_def accepted_def Let_def item_of_row_def row_good_specs_def
      item_good_specs_def sample_clock_def eval_text eval_rt)

lemma norm_bad_specs: "normalize_row sample_rt (sample_clock i) row_bad_specs = Some item_bad_specs"
  by (simp add: normalize_row_def accepted_def Let_def item_of_row_def row_bad_specs_def
      item_bad_specs_def sample_clock_def eval_text eval_rt)

lemma group_step_seen:
  assumes "products st (product_slug r) = Some p"
  shows "products (group_step rt r st) = products st"
  using assms by (simp add: group_step_def Let_def)

lemma catalog_a_b_products:
  "products (group_by_product rt [item_a, item_b]) (ustr ''bosch-gsr-12'') =
     Some (product_of rt item_a)"
  by (simp add: gbp_products item_a_def)

lemma catalog_a_b_offers:
  "offers (group_by_product rt [item_a, item_b]) (ustr ''bosch-gsr-12'') =
     Some [offer_of rt item_a, offer_of rt item_b]"
  by (simp add: gbp_offers item_a_def item_b_def)

text \<open>
  C3. The product of a slug has the descriptive fields of the first record with that
  slug, and there is no product for a slug that no record has. A record whose slug has a
  product leaves every product as it is; every record adds one offer, its own, at the end
  of the offers of its slug, and leaves the offers of the other slugs as they are.
\<close>

theorem first_seen_wins:
  "(find (\<lambda>x. product_slug x = slug) rows = None \<longrightarrow>
      products (group_by_product rt rows) slug = None) \<and>
   (find (\<lambda>x. product_slug x = slug) rows = Some r \<longrightarrow>
      (\<exists>p. products (group_by_product rt rows) slug = Some p \<and> p_slug p = slug \<and>
           p_category p = category r \<and> p_name p = product_name r \<and> p_brand p = brand r \<and>
           p_model p = model r \<and> p_gtin p = gtin r \<and> p_mpn p = mpn r \<and>
           p_specs p = parse_specs rt r)) \<and>
   (products (group_by_product rt rows) (product_slug r') = Some p' \<longrightarrow>
      products (group_by_product rt (rows @ [r'])) = products (group_by_product rt rows)) \<and>
   offers (group_by_product rt (rows @ [r'])) (product_slug r') =
     Some ((case offers (group_by_product rt rows) (product_slug r') of
              Some l \<Rightarrow> l | None \<Rightarrow> []) @ [offer_of rt r']) \<and>
   (slug \<noteq> product_slug r' \<longrightarrow>
      offers (group_by_product rt (rows @ [r'])) slug = offers (group_by_product rt rows) slug)"
proof (intro conjI impI)
  assume "find (\<lambda>x. product_slug x = slug) rows = None"
  then show "products (group_by_product rt rows) slug = None" by (simp add: gbp_products)
next
  assume f: "find (\<lambda>x. product_slug x = slug) rows = Some r"
  then have s: "product_slug r = slug" by (auto simp: find_Some_iff)
  from f have "products (group_by_product rt rows) slug = Some (product_of rt r)"
    by (simp add: gbp_products)
  then show "\<exists>p. products (group_by_product rt rows) slug = Some p \<and> p_slug p = slug \<and>
           p_category p = category r \<and> p_name p = product_name r \<and> p_brand p = brand r \<and>
           p_model p = model r \<and> p_gtin p = gtin r \<and> p_mpn p = mpn r \<and>
           p_specs p = parse_specs rt r"
    using s by (simp add: product_of_def)
next
  assume "products (group_by_product rt rows) (product_slug r') = Some p'"
  then show "products (group_by_product rt (rows @ [r'])) = products (group_by_product rt rows)"
    by (simp add: group_by_product_snoc group_step_seen)
next
  show "offers (group_by_product rt (rows @ [r'])) (product_slug r') =
     Some ((case offers (group_by_product rt rows) (product_slug r') of
              Some l \<Rightarrow> l | None \<Rightarrow> []) @ [offer_of rt r'])"
    by (simp add: group_by_product_snoc group_step_offers)
next
  assume "slug \<noteq> product_slug r'"
  then show "offers (group_by_product rt (rows @ [r'])) slug = offers (group_by_product rt rows) slug"
    by (simp add: group_by_product_snoc group_step_offers)
qed

theorem first_seen_wins_witness:
  "find (\<lambda>x. product_slug x = ustr ''bosch-gsr-12'') [item_a, item_b] = Some item_a \<and>
   brand item_a = ustr ''Bosch'' \<and> brand item_b = ustr ''BOSCH'' \<and>
   map_option p_brand (products (group_by_product sample_rt [item_a, item_b]) (ustr ''bosch-gsr-12''))
     = Some (ustr ''Bosch'') \<and>
   products (group_by_product sample_rt [item_a]) (product_slug item_b) =
     Some (product_of sample_rt item_a) \<and>
   products (group_by_product sample_rt ([item_a] @ [item_b])) =
     products (group_by_product sample_rt [item_a]) \<and>
   offers (group_by_product sample_rt ([item_a] @ [item_b])) (product_slug item_b) =
     Some [offer_of sample_rt item_a, offer_of sample_rt item_b] \<and>
   find (\<lambda>x. product_slug x = ustr ''other'') [item_a, item_b] = None \<and>
   products (group_by_product sample_rt [item_a, item_b]) (ustr ''other'') = None \<and>
   ustr ''other'' \<noteq> product_slug item_b \<and>
   offers (group_by_product sample_rt ([item_a] @ [item_b])) (ustr ''other'') =
     offers (group_by_product sample_rt [item_a]) (ustr ''other'')"
proof -
  have f: "find (\<lambda>x. product_slug x = ustr ''bosch-gsr-12'') [item_a, item_b] = Some item_a"
    by (simp add: item_a_def)
  have n: "find (\<lambda>x. product_slug x = ustr ''other'') [item_a, item_b] = None"
    by (simp add: item_a_def item_b_def ustr_def)
  have seen: "products (group_by_product sample_rt [item_a]) (product_slug item_b) =
      Some (product_of sample_rt item_a)"
    by (simp add: gbp_products item_a_def item_b_def)
  have d: "ustr ''other'' \<noteq> product_slug item_b" by (simp add: item_b_def ustr_def)
  have o1: "offers (group_by_product sample_rt [item_a]) (product_slug item_b) =
      Some [offer_of sample_rt item_a]"
    by (simp add: gbp_offers item_a_def item_b_def)
  note t1 = first_seen_wins [where slug = "ustr ''bosch-gsr-12''" and rows = "[item_a, item_b]"
      and rt = sample_rt and r = item_a]
  note t2 = first_seen_wins [where slug = "ustr ''other''" and rows = "[item_a]"
      and rt = sample_rt and r' = item_b and p' = "product_of sample_rt item_a"]
  note t3 = first_seen_wins [where slug = "ustr ''other''" and rows = "[item_a, item_b]"
      and rt = sample_rt]
  from t1 f have "map_option p_brand
      (products (group_by_product sample_rt [item_a, item_b]) (ustr ''bosch-gsr-12'')) =
      Some (brand item_a)"
    by auto
  moreover from t2 seen have "products (group_by_product sample_rt ([item_a] @ [item_b])) =
      products (group_by_product sample_rt [item_a])"
    by blast
  moreover from t2 o1 have "offers (group_by_product sample_rt ([item_a] @ [item_b]))
      (product_slug item_b) = Some [offer_of sample_rt item_a, offer_of sample_rt item_b]"
    by simp
  moreover from t2 d have "offers (group_by_product sample_rt ([item_a] @ [item_b])) (ustr ''other'') =
      offers (group_by_product sample_rt [item_a]) (ustr ''other'')"
    by blast
  moreover from t3 n have "products (group_by_product sample_rt [item_a, item_b]) (ustr ''other'') = None"
    by blast
  moreover have "brand item_a = ustr ''Bosch''" "brand item_b = ustr ''BOSCH''"
    by (simp_all add: item_a_def item_b_def)
  ultimately show ?thesis using f n seen d by simp
qed

text \<open>
  C5. The catalog is a function of the sequence of records: of the runtime it uses only
  \<open>json.loads\<close> and float addition, so two runs on the same sequence, whatever else
  differs around them, give the same products and the same offers in the same order.
\<close>

theorem reconcile_deterministic:
  assumes "json_loads rt1 = json_loads rt2" and "float_round rt1 = float_round rt2"
    and "rows1 = rows2"
  shows "group_by_product rt1 rows1 = group_by_product rt2 rows2 \<and>
         dom (products (group_by_product rt1 rows1)) = dom (products (group_by_product rt2 rows2)) \<and>
         products (group_by_product rt1 rows1) slug = products (group_by_product rt2 rows2) slug \<and>
         offers (group_by_product rt1 rows1) slug = offers (group_by_product rt2 rows2) slug"
proof -
  have "group_by_product rt1 rows1 = group_by_product rt2 rows2"
    unfolding group_by_product_def assms(3) using assms(1,2) by (rule group_loop_rt)
  then show ?thesis by simp
qed

theorem reconcile_deterministic_witness:
  "json_loads sample_rt = json_loads other_rt \<and> float_round sample_rt = float_round other_rt \<and>
   unicode_lower sample_rt \<noteq> unicode_lower other_rt \<and>
   group_by_product sample_rt [item_a, item_b] = group_by_product other_rt [item_a, item_b] \<and>
   offers (group_by_product sample_rt [item_a, item_b]) (ustr ''bosch-gsr-12'') =
     offers (group_by_product other_rt [item_a, item_b]) (ustr ''bosch-gsr-12'')"
proof -
  have j: "json_loads sample_rt = json_loads other_rt" by (simp add: other_rt_def)
  have f: "float_round sample_rt = float_round other_rt" by (simp add: other_rt_def)
  have "unicode_lower sample_rt [] 0 \<noteq> unicode_lower other_rt [] 0"
    by (simp add: other_rt_def sample_rt_def)
  then have u: "unicode_lower sample_rt \<noteq> unicode_lower other_rt" by metis
  from reconcile_deterministic [OF j f refl, of "[item_a, item_b]" "ustr ''bosch-gsr-12''"]
  show ?thesis using j f u by simp
qed

text \<open>
  C9. Every product of a catalog has a list of offers that is not empty, so neither
  \<open>min\<close> in \<open>render_index\<close> nor the first element and \<open>max\<close> in \<open>render_product\<close> can
  fail on it.
\<close>

theorem catalog_products_have_offers:
  "products (group_by_product rt rows) slug = Some p \<longrightarrow>
     (\<exists>offs. offers (group_by_product rt rows) slug = Some offs \<and> offs \<noteq> [] \<and>
        (\<exists>m. min_offer offs = Inr m) \<and> (\<exists>row. index_row_of offs = Inr row) \<and>
        (\<exists>a. aggregate_offer_of offs = Inr a))"
proof
  assume "products (group_by_product rt rows) slug = Some p"
  then obtain offs where o: "offers (group_by_product rt rows) slug = Some offs" and ne: "offs \<noteq> []"
    using gbp_nonempty by blast
  from ne obtain x xs where xs: "offs = x # xs" by (cases offs) auto
  then have m: "min_offer offs = Inr (min_loop x xs)" by (simp add: min_offer_def)
  then have i: "\<exists>row. index_row_of offs = Inr row" by (simp add: index_row_of_def)
  from ne have "sorted_offers offs \<noteq> []" by (simp add: sorted_offers_Nil_iff)
  then obtain y ys where ys: "sorted_offers offs = y # ys" by (cases "sorted_offers offs") auto
  then have "\<exists>a. aggregate_offer_of offs = Inr a"
    by (simp add: aggregate_offer_of_def max_total_def)
  with o ne m i show "\<exists>offs. offers (group_by_product rt rows) slug = Some offs \<and> offs \<noteq> [] \<and>
        (\<exists>m. min_offer offs = Inr m) \<and> (\<exists>row. index_row_of offs = Inr row) \<and>
        (\<exists>a. aggregate_offer_of offs = Inr a)"
    by blast
qed

theorem catalog_products_have_offers_witness:
  "products (group_by_product sample_rt [item_a, item_b]) (ustr ''bosch-gsr-12'') =
     Some (product_of sample_rt item_a) \<and>
   offers (group_by_product sample_rt [item_a, item_b]) (ustr ''bosch-gsr-12'') =
     Some [offer_of sample_rt item_a, offer_of sample_rt item_b] \<and>
   (\<exists>m. min_offer [offer_of sample_rt item_a, offer_of sample_rt item_b] = Inr m) \<and>
   (\<exists>row. index_row_of [offer_of sample_rt item_a, offer_of sample_rt item_b] = Inr row) \<and>
   (\<exists>a. aggregate_offer_of [offer_of sample_rt item_a, offer_of sample_rt item_b] = Inr a)"
proof -
  note p = catalog_a_b_products [of sample_rt]
  note o = catalog_a_b_offers [of sample_rt]
  from catalog_products_have_offers [of sample_rt "[item_a, item_b]" "ustr ''bosch-gsr-12''"
      "product_of sample_rt item_a"] p o
  show ?thesis by simp
qed

lemma row_get_other: "k \<noteq> k' \<Longrightarrow> row_get (r(k \<mapsto> s)) k' d = row_get r k' d"
  by (simp add: row_get_def)

lemma row_get_same: "row_get (r(k \<mapsto> s)) k d = s"
  by (simp add: row_get_def)

lemma item_of_row_specs:
  "item_of_row rt now (r(''specs_json'' \<mapsto> s)) = (item_of_row rt now r)\<lparr>specs_json := py_strip s\<rparr>"
  by (simp add: item_of_row_def row_get_other row_get_same)

lemma accepted_specs: "accepted (it\<lparr>specs_json := s\<rparr>) = accepted it"
  by (simp add: accepted_def)

text \<open>
  C7, as the specification states it, makes the specs of the product empty for every row
  with malformed specs. The second of two rows of one slug has specs that \<open>json.loads\<close>
  rejects; it is kept, and the product of its slug keeps the specs of the first row.
\<close>

theorem malformed_specs_counterexample:
  "normalize_rows sample_rt sample_clock [row_good_specs, row_bad_specs] =
     [item_good_specs, item_bad_specs] \<and>
   json_loads sample_rt (specs_json item_bad_specs) = None \<and>
   map_option p_specs
     (products (group_by_product sample_rt [item_good_specs, item_bad_specs])
        (product_slug item_bad_specs)) = Some (JDict [(ustr ''a'', JInt 1)]) \<and>
   map_option p_specs
     (products (group_by_product sample_rt [item_good_specs, item_bad_specs])
        (product_slug item_bad_specs)) \<noteq> Some (JDict [])"
proof -
  have 1: "normalize_rows sample_rt sample_clock [row_good_specs, row_bad_specs] =
     [item_good_specs, item_bad_specs]"
    by (simp add: normalize_rows_def norm_good_specs norm_bad_specs)
  have 2: "json_loads sample_rt (specs_json item_bad_specs) = None"
    by (simp add: item_bad_specs_def sample_rt_def sample_loads_def ustr_def)
  have 3: "map_option p_specs
     (products (group_by_product sample_rt [item_good_specs, item_bad_specs])
        (product_slug item_bad_specs)) = Some (JDict [(ustr ''a'', JInt 1)])"
    by (simp add: gbp_products product_of_def parse_specs_def or_else_def item_good_specs_def
        item_bad_specs_def sample_rt_def sample_loads_def ustr_def)
  have 4: "map_option p_specs
     (products (group_by_product sample_rt [item_good_specs, item_bad_specs])
        (product_slug item_bad_specs)) \<noteq> Some (JDict [])"
    unfolding 3 by simp
  from 1 2 3 4 show ?thesis by (intro conjI)
qed

text \<open>
  C7, amended. The specs text of a row has no part in the test that keeps or drops the
  row: with any other specs text the row gives the same item, up to its \<open>specs_json\<close>.
  When \<open>json.loads\<close> raises on the specs text of a record and the record is the first of
  its slug, the product of that slug has the empty mapping as its specs.
\<close>

theorem malformed_specs_kept:
  "normalize_row rt now (r(''specs_json'' \<mapsto> s)) =
     map_option (\<lambda>it. it\<lparr>specs_json := py_strip s\<rparr>) (normalize_row rt now r) \<and>
   (specs_json it \<noteq> [] \<and> json_loads rt (specs_json it) = None \<and>
    find (\<lambda>x. product_slug x = product_slug it) rows = Some it \<longrightarrow>
      (\<exists>p. products (group_by_product rt rows) (product_slug it) = Some p \<and> p_specs p = JDict []))"
proof (intro conjI impI)
  show "normalize_row rt now (r(''specs_json'' \<mapsto> s)) =
     map_option (\<lambda>it. it\<lparr>specs_json := py_strip s\<rparr>) (normalize_row rt now r)"
    by (simp add: normalize_row_def Let_def item_of_row_specs accepted_specs)
next
  assume a: "specs_json it \<noteq> [] \<and> json_loads rt (specs_json it) = None \<and>
    find (\<lambda>x. product_slug x = product_slug it) rows = Some it"
  then have "products (group_by_product rt rows) (product_slug it) = Some (product_of rt it)"
    by (simp add: gbp_products)
  moreover from a have "p_specs (product_of rt it) = JDict []"
    by (simp add: product_of_def parse_specs_def or_else_def)
  ultimately show "\<exists>p. products (group_by_product rt rows) (product_slug it) = Some p \<and>
      p_specs p = JDict []"
    by blast
qed

theorem malformed_specs_kept_witness:
  "normalize_row sample_rt (sample_clock 0) row_good_specs = Some item_good_specs \<and>
   normalize_row sample_rt (sample_clock 0) (row_good_specs(''specs_json'' \<mapsto> ustr ''{bad'')) =
     Some (item_good_specs\<lparr>specs_json := ustr ''{bad''\<rparr>) \<and>
   specs_json item_bad_specs \<noteq> [] \<and> json_loads sample_rt (specs_json item_bad_specs) = None \<and>
   find (\<lambda>x. product_slug x = product_slug item_bad_specs) [item_bad_specs, item_good_specs] =
     Some item_bad_specs \<and>
   map_option p_specs
     (products (group_by_product sample_rt [item_bad_specs, item_good_specs])
        (product_slug item_bad_specs)) = Some (JDict [])"
proof -
  have g: "normalize_row sample_rt (sample_clock 0) row_good_specs = Some item_good_specs"
    by (rule norm_good_specs)
  have s: "py_strip (ustr ''{bad'') = ustr ''{bad''" by (simp add: eval_text)
  have n: "specs_json item_bad_specs \<noteq> []" by (simp add: item_bad_specs_def ustr_def)
  have j: "json_loads sample_rt (specs_json item_bad_specs) = None"
    by (simp add: item_bad_specs_def sample_rt_def sample_loads_def ustr_def)
  have f: "find (\<lambda>x. product_slug x = product_slug item_bad_specs)
      [item_bad_specs, item_good_specs] = Some item_bad_specs"
    by simp
  note t = malformed_specs_kept [where rt = sample_rt and now = "sample_clock 0"
      and r = row_good_specs and s = "ustr ''{bad''" and it = item_bad_specs
      and rows = "[item_bad_specs, item_good_specs]"]
  from t g s have "normalize_row sample_rt (sample_clock 0)
      (row_good_specs(''specs_json'' \<mapsto> ustr ''{bad'')) =
      Some (item_good_specs\<lparr>specs_json := ustr ''{bad''\<rparr>)"
    by simp
  moreover from t n j f have "map_option p_specs
     (products (group_by_product sample_rt [item_bad_specs, item_good_specs])
        (product_slug item_bad_specs)) = Some (JDict [])"
    by auto
  ultimately show ?thesis using g n j f by simp
qed

text \<open>
  C10. \<open>normalize_rows\<close> returns the items of the kept rows in the order of the rows, and
  the offers of a slug are the offers of the records with that slug, one for each, in the
  order of the records; a slug that no record has is not a key of the offers.
\<close>

theorem order_preserved:
  "normalize_rows rt clock rows =
     List.map_filter (\<lambda>(j, r). normalize_row rt (clock j) r) (List.enumerate 0 rows) \<and>
   offers (group_by_product rt recs) slug =
     (if filter (\<lambda>x. product_slug x = slug) recs = [] then None
      else Some (map (offer_of rt) (filter (\<lambda>x. product_slug x = slug) recs))) \<and>
   offers (group_by_product rt (normalize_rows rt clock rows)) slug =
     (if filter (\<lambda>x. product_slug x = slug) (normalize_rows rt clock rows) = [] then None
      else Some (map (offer_of rt) (filter (\<lambda>x. product_slug x = slug)
             (List.map_filter (\<lambda>(j, r). normalize_row rt (clock j) r) (List.enumerate 0 rows)))))"
proof (intro conjI)
  show 1: "normalize_rows rt clock rows =
     List.map_filter (\<lambda>(j, r). normalize_row rt (clock j) r) (List.enumerate 0 rows)"
    by (rule normalize_rows_eq)
  show 2: "offers (group_by_product rt recs) slug =
     (if filter (\<lambda>x. product_slug x = slug) recs = [] then None
      else Some (map (offer_of rt) (filter (\<lambda>x. product_slug x = slug) recs)))" for recs
    by (rule gbp_offers)
  show "offers (group_by_product rt (normalize_rows rt clock rows)) slug =
     (if filter (\<lambda>x. product_slug x = slug) (normalize_rows rt clock rows) = [] then None
      else Some (map (offer_of rt) (filter (\<lambda>x. product_slug x = slug)
             (List.map_filter (\<lambda>(j, r). normalize_row rt (clock j) r) (List.enumerate 0 rows)))))"
    unfolding 2 [of "normalize_rows rt clock rows"] 1 [symmetric] by (rule refl)
qed

theorem order_preserved_witness:
  "normalize_rows sample_rt sample_clock [row_shop_a, row_no_price, row_shop_b] = [item_a, item_b] \<and>
   normalize_rows sample_rt sample_clock [row_shop_b, row_no_price, row_shop_a] = [item_b, item_a] \<and>
   offers (group_by_product sample_rt [item_a, item_b]) (ustr ''bosch-gsr-12'') =
     Some [offer_of sample_rt item_a, offer_of sample_rt item_b] \<and>
   offers (group_by_product sample_rt [item_b, item_a]) (ustr ''bosch-gsr-12'') =
     Some [offer_of sample_rt item_b, offer_of sample_rt item_a]"
proof -
  note t1 = order_preserved [where rt = sample_rt and clock = sample_clock
      and rows = "[row_shop_a, row_no_price, row_shop_b]" and recs = "[item_a, item_b]"
      and slug = "ustr ''bosch-gsr-12''"]
  note t2 = order_preserved [where rt = sample_rt and clock = sample_clock
      and rows = "[row_shop_b, row_no_price, row_shop_a]" and recs = "[item_b, item_a]"
      and slug = "ustr ''bosch-gsr-12''"]
  have e1: "List.enumerate 0 [row_shop_a, row_no_price, row_shop_b] =
      [(0, row_shop_a), (1, row_no_price), (2, row_shop_b)]"
    by (simp add: enumerate_simps)
  have e2: "List.enumerate 0 [row_shop_b, row_no_price, row_shop_a] =
      [(0, row_shop_b), (1, row_no_price), (2, row_shop_a)]"
    by (simp add: enumerate_simps)
  from t1 have "normalize_rows sample_rt sample_clock [row_shop_a, row_no_price, row_shop_b] =
      [item_a, item_b]"
    by (simp add: e1 List.map_filter_simps norm_a norm_b norm_no_price)
  moreover from t2 have "normalize_rows sample_rt sample_clock [row_shop_b, row_no_price, row_shop_a] =
      [item_b, item_a]"
    by (simp add: e2 List.map_filter_simps norm_a norm_b norm_no_price)
  moreover from t1 have "offers (group_by_product sample_rt [item_a, item_b]) (ustr ''bosch-gsr-12'') =
      Some [offer_of sample_rt item_a, offer_of sample_rt item_b]"
    by (simp add: item_a_def item_b_def)
  moreover from t2 have "offers (group_by_product sample_rt [item_b, item_a]) (ustr ''bosch-gsr-12'') =
      Some [offer_of sample_rt item_b, offer_of sample_rt item_a]"
    by (simp add: item_a_def item_b_def)
  ultimately show ?thesis by simp
qed

section \<open>Claims about the derived values\<close>

lemma fle_iff: "a \<noteq> NaN \<Longrightarrow> b \<noteq> NaN \<Longrightarrow> fle a b \<longleftrightarrow> \<not> flt b a"
  by (simp add: fle_def)

lemma nan_offers_eq:
  "nan_offers =
     [\<lparr> o_merchant = ustr ''m'', o_availability = [], o_price = Fin 10, o_shipping = NaN,
         o_currency = ustr ''RUB'', o_url = ustr ''u'', o_total = NaN,
         o_updated_at = ustr ''2024-01-01T00:00:00Z'' \<rparr>,
      \<lparr> o_merchant = ustr ''n'', o_availability = [], o_price = Fin 5, o_shipping = Fin 0,
         o_currency = ustr ''RUB'', o_url = ustr ''v'', o_total = Fin 5,
         o_updated_at = ustr ''2024-01-01T00:00:00Z'' \<rparr>]"
proof -
  let ?a = "\<lparr> category = [], product_slug = ustr ''p'', product_name = [],
      brand = [], model = [], gtin = [], mpn = [], specs_json = [],
      merchant = ustr ''m'', price = Fin 10, currency = ustr ''RUB'', shipping = NaN,
      url = ustr ''u'', availability = [], updated_at = ustr ''2024-01-01T00:00:00Z'' \<rparr>"
  let ?b = "\<lparr> category = [], product_slug = ustr ''p'', product_name = [],
      brand = [], model = [], gtin = [], mpn = [], specs_json = [],
      merchant = ustr ''n'', price = Fin 5, currency = ustr ''RUB'', shipping = Fin 0,
      url = ustr ''v'', availability = [], updated_at = ustr ''2024-01-01T00:00:00Z'' \<rparr>"
  have a: "item_of_row sample_rt (sample_clock i) row_nan_ship = ?a" for i
    by (simp add: item_of_row_def row_nan_ship_def sample_clock_def eval_text eval_rt)
  have b: "item_of_row sample_rt (sample_clock i) row_cheap = ?b" for i
    by (simp add: item_of_row_def row_cheap_def sample_clock_def eval_text eval_rt)
  have na: "normalize_row sample_rt (sample_clock i) row_nan_ship = Some ?a" for i
    unfolding normalize_row_def Let_def a by (simp add: accepted_def fgt_def ustr_def)
  have nb: "normalize_row sample_rt (sample_clock i) row_cheap = Some ?b" for i
    unfolding normalize_row_def Let_def b by (simp add: accepted_def fgt_def ustr_def)
  have n: "normalize_rows sample_rt sample_clock [row_nan_ship, row_cheap] = [?a, ?b]"
    by (simp add: normalize_rows_def na nb)
  show ?thesis
    unfolding nan_offers_def n gbp_offers
    by (simp add: offer_of_def sample_rt_def)
qed

text \<open>
  C4, as the specification states it, holds for every list of offers that is not empty.
  The offers of the slug \<open>p\<close> have the totals NaN and 5: \<open>min\<close> keeps the first offer,
  because \<open>5 < NaN\<close> is false, so the low total shown is NaN, which is not at most 5, and
  the cheapest offer is not the one of total 5.
\<close>

theorem cheapest_offer_counterexample:
  "map o_total nan_offers = [NaN, Fin 5] \<and>
   map o_merchant nan_offers = [ustr ''m'', ustr ''n''] \<and>
   map_sum id (o_merchant \<circ> cheapest) (index_row_of nan_offers) = Inr (ustr ''m'') \<and>
   map_sum id (o_total \<circ> cheapest) (index_row_of nan_offers) = Inr NaN \<and>
   \<not> fle NaN (Fin 5)"
  unfolding nan_offers_eq
  by (simp add: index_row_of_def min_offer_def fle_def)

text \<open>
  C4, amended. For every list of offers that is not empty and has no NaN among its
  totals: the cheapest offer of \<open>render_index\<close> and the first sorted offer of
  \<open>render_product\<close> are the same offer \<open>m\<close>; \<open>m\<close> is the earliest offer of the list with
  its total, and its total, the low price, is at most every total; the high price is a
  total of the list and at least every total; both counts are the length of the list.
\<close>

theorem cheapest_offer:
  assumes "offs \<noteq> []" and "\<forall>x\<in>set offs. o_total x \<noteq> NaN"
  shows "\<exists>m h. index_row_of offs = Inr \<lparr> cheapest = m, count = length offs \<rparr> \<and>
           aggregate_offer_of offs =
             Inr \<lparr> firstOffer = m, lowPrice = o_total m, highPrice = h,
                   offerCount = length offs \<rparr> \<and>
           find (\<lambda>x. o_total x = o_total m) offs = Some m \<and>
           (\<forall>x\<in>set offs. fle (o_total m) (o_total x)) \<and>
           h \<in> o_total ` set offs \<and> (\<forall>x\<in>set offs. fle (o_total x) h)"
proof -
  from assms(1) obtain x xs where xs: "offs = x # xs" by (cases offs) auto
  let ?m = "fmin x xs"
  have nn: "\<forall>o'\<in>set (x # xs). o_total o' \<noteq> NaN" using assms(2) xs by simp
  have mem: "?m \<in> set offs" unfolding xs by (rule fmin_mem)
  then have nm: "o_total ?m \<noteq> NaN" using assms(2) by blast
  have "min_loop x xs = ?m" using nn by (rule min_loop_fmin)
  then have i: "index_row_of offs = Inr \<lparr> cheapest = ?m, count = length offs \<rparr>"
    by (simp add: index_row_of_def min_offer_def xs)
  have "sorted_offers offs \<noteq> []" using assms(1) by (simp add: sorted_offers_Nil_iff)
  then obtain y ys where ys: "sorted_offers offs = y # ys"
    by (cases "sorted_offers offs") auto
  have "hd (sorted_offers (x # xs)) = ?m" by (rule hd_sorted_offers)
  then have y: "y = ?m" using ys xs by simp
  let ?h = "max_loop (o_total y) (map o_total ys)"
  have st: "set (o_total y # map o_total ys) = o_total ` set offs"
  proof -
    have "set (o_total y # map o_total ys) = o_total ` set (sorted_offers offs)"
      unfolding ys by simp
    then show ?thesis by (simp add: set_sorted_offers)
  qed
  have "\<forall>v\<in>set (o_total y # map o_total ys). v \<noteq> NaN" unfolding st using assms(2) by auto
  then have "?h \<in> set (o_total y # map o_total ys) \<and>
      (\<forall>v\<in>set (o_total y # map o_total ys). \<not> flt ?h v)"
    by (rule max_loop_props)
  then have hm: "?h \<in> o_total ` set offs" and hl: "\<forall>v\<in>o_total ` set offs. \<not> flt ?h v"
    unfolding st by simp_all
  from hm have nh: "?h \<noteq> NaN" using assms(2) by auto
  have a: "aggregate_offer_of offs =
      Inr \<lparr> firstOffer = ?m, lowPrice = o_total ?m, highPrice = ?h, offerCount = length offs \<rparr>"
    using length_sorted_offers [of offs]
    by (simp add: aggregate_offer_of_def max_total_def ys y)
  have f: "find (\<lambda>o'. o_total o' = o_total ?m) offs = Some ?m"
    unfolding xs using nn by (rule fmin_first)
  have "\<forall>o'\<in>set (x # xs). \<not> flt (o_total o') (o_total ?m)" using nn by (rule fmin_least)
  then have l: "\<forall>o'\<in>set offs. fle (o_total ?m) (o_total o')"
    using assms(2) nm by (simp add: xs fle_iff)
  have u: "\<forall>o'\<in>set offs. fle (o_total o') ?h"
    using hl assms(2) nh by (simp add: fle_iff)
  from i a f l hm u show ?thesis by blast
qed

theorem cheapest_offer_witness:
  "example_offers \<noteq> [] \<and> map o_total example_offers = [Fin (241 / 2), Fin (9999 / 100), Fin (9999 / 100)] \<and>
   list_all (\<lambda>x. o_total x \<noteq> NaN) example_offers \<and>
   index_row_of example_offers = Inr \<lparr> cheapest = offer_at ''b'' (Fin (9999 / 100)), count = 3 \<rparr> \<and>
   aggregate_offer_of example_offers =
     Inr \<lparr> firstOffer = offer_at ''b'' (Fin (9999 / 100)), lowPrice = Fin (9999 / 100),
           highPrice = Fin (241 / 2), offerCount = 3 \<rparr> \<and>
   find (\<lambda>x. o_total x = Fin (9999 / 100)) example_offers = Some (offer_at ''b'' (Fin (9999 / 100)))"
proof -
  have ne: "example_offers \<noteq> []" by (simp add: example_offers_def)
  have nn: "\<forall>x\<in>set example_offers. o_total x \<noteq> NaN"
    by (simp add: example_offers_def offer_at_def)
  from cheapest_offer [OF ne nn] obtain m h where
    i: "index_row_of example_offers = Inr \<lparr> cheapest = m, count = length example_offers \<rparr>" and
    a: "aggregate_offer_of example_offers =
          Inr \<lparr> firstOffer = m, lowPrice = o_total m, highPrice = h,
                offerCount = length example_offers \<rparr>" and
    f: "find (\<lambda>x. o_total x = o_total m) example_offers = Some m" and
    l: "\<forall>x\<in>set example_offers. fle (o_total m) (o_total x)" and
    hm: "h \<in> o_total ` set example_offers" and
    u: "\<forall>x\<in>set example_offers. fle (o_total x) h"
    by blast
  from f have "m \<in> set example_offers" by (auto simp: find_Some_iff in_set_conv_nth)
  with l have tm: "o_total m = Fin (9999 / 100)"
    by (auto simp: example_offers_def offer_at_def fle_def)
  with f have m: "m = offer_at ''b'' (Fin (9999 / 100))"
    by (simp add: example_offers_def offer_at_def ustr_def)
  from hm u have h: "h = Fin (241 / 2)"
    by (auto simp: example_offers_def offer_at_def fle_def)
  have len: "length example_offers = 3" by (simp add: example_offers_def)
  have t: "map o_total example_offers = [Fin (241 / 2), Fin (9999 / 100), Fin (9999 / 100)]"
    by (simp add: example_offers_def offer_at_def)
  have la: "list_all (\<lambda>x. o_total x \<noteq> NaN) example_offers"
    by (simp add: example_offers_def offer_at_def)
  from f have "find (\<lambda>x. o_total x = Fin (9999 / 100)) example_offers = Some m"
    by (simp only: tm)
  then have f': "find (\<lambda>x. o_total x = Fin (9999 / 100)) example_offers =
      Some (offer_at ''b'' (Fin (9999 / 100)))"
    by (simp only: m)
  show ?thesis using ne t la i a f' unfolding m h len
    by (simp add: offer_at_def)
qed

end
